theory Spec2Isabelle
  imports Main
begin

section \<open>Status values\<close>

text \<open>
  The C++ code reports failure through \<open>absl::Status\<close> / \<open>absl::StatusOr\<close>. A status
  that is not OK is a value of \<open>error\<close>; a \<open>StatusOr<T>\<close> is \<open>error + T\<close> with
  \<open>Inl\<close> for the error.
\<close>

datatype error =
    InvalidArgumentError string
  | UnimplementedError string
  | InternalError string
  | ExternalError string

section \<open>String helpers of absl used by the sources\<close>

abbreviation NL :: char where
  "NL \<equiv> CHR 0x0A"

text \<open>\<open>absl::ascii_isspace\<close>: space, \<open>\t\<close>, \<open>\n\<close>, \<open>\v\<close>, \<open>\f\<close>, \<open>\r\<close>.\<close>

definition ascii_isspace :: "char \<Rightarrow> bool" where
  "ascii_isspace c =
     (c = CHR '' '' \<or> c = CHR 0x09 \<or> c = CHR 0x0A \<or> c = CHR 0x0B \<or> c = CHR 0x0C \<or> c = CHR 0x0D)"

definition StripLeadingAsciiWhitespace :: "string \<Rightarrow> string" where
  "StripLeadingAsciiWhitespace s = dropWhile ascii_isspace s"

definition StripTrailingAsciiWhitespace :: "string \<Rightarrow> string" where
  "StripTrailingAsciiWhitespace s = rev (dropWhile ascii_isspace (rev s))"

definition StripAsciiWhitespace :: "string \<Rightarrow> string" where
  "StripAsciiWhitespace s = StripTrailingAsciiWhitespace (StripLeadingAsciiWhitespace s)"

definition StartsWith :: "string \<Rightarrow> string \<Rightarrow> bool" where
  "StartsWith s p = (take (length p) s = p)"

definition StripPrefix :: "string \<Rightarrow> string \<Rightarrow> string" where
  "StripPrefix s p = (if StartsWith s p then drop (length p) s else s)"

text \<open>
  \<open>absl::StrSplit(s, d)\<close> with a single-character delimiter and no predicate: the pieces
  between the delimiters, empty pieces kept; the empty text gives one empty piece.
\<close>

fun StrSplit :: "string \<Rightarrow> char \<Rightarrow> string list" where
  "StrSplit [] d = [[]]"
| "StrSplit (c # cs) d =
     (if c = d then [] # StrSplit cs d
      else (case StrSplit cs d of
              [] \<Rightarrow> [[c]]
            | p # ps \<Rightarrow> (c # p) # ps))"

fun StrJoin :: "string list \<Rightarrow> string \<Rightarrow> string" where
  "StrJoin [] sep = []"
| "StrJoin [x] sep = x"
| "StrJoin (x # y # ys) sep = x @ sep @ StrJoin (y # ys) sep"

section \<open>Crasher sample codec (xls/fuzzer/sample.cc)\<close>

subsection \<open>Data\<close>

datatype SampleType = SAMPLE_TYPE_FUNCTION | SAMPLE_TYPE_PROC

text \<open>The fields of \<open>fuzzer::SampleOptionsProto\<close> that \<open>SampleOptions::operator==\<close> reads.\<close>

record SampleOptionsProto =
  input_is_dslx :: bool
  sample_type :: SampleType
  ir_converter_args :: "string list"
  convert_to_ir :: bool
  optimize_ir :: bool
  use_jit :: bool
  codegen :: bool
  codegen_args :: "string list"
  simulate :: bool
  simulator :: string
  use_system_verilog :: bool
  timeout_seconds :: int
  calls_per_sample :: int
  proc_ticks :: int

text \<open>\<open>SampleOptions\<close> wraps the proto (\<open>FromProto\<close> copies it, \<open>proto()\<close> returns it).\<close>

type_synonym SampleOptions = SampleOptionsProto

definition FromProto :: "SampleOptionsProto \<Rightarrow> error + SampleOptions" where
  "FromProto proto = Inr proto"

definition SampleOptions_eq :: "SampleOptions \<Rightarrow> SampleOptions \<Rightarrow> bool" where
  "SampleOptions_eq a b =
     (input_is_dslx a = input_is_dslx b \<and>
      sample_type a = sample_type b \<and>
      ir_converter_args a = ir_converter_args b \<and>
      convert_to_ir a = convert_to_ir b \<and>
      optimize_ir a = optimize_ir b \<and>
      use_jit a = use_jit b \<and> codegen a = codegen b \<and>
      codegen_args a = codegen_args b \<and>
      simulate a = simulate b \<and> simulator a = simulator b \<and>
      use_system_verilog a = use_system_verilog b \<and>
      timeout_seconds a = timeout_seconds b \<and>
      calls_per_sample a = calls_per_sample b \<and>
      proc_ticks a = proc_ticks b)"

definition IsFunctionSample :: "SampleOptions \<Rightarrow> bool" where
  "IsFunctionSample opts = (sample_type opts = SAMPLE_TYPE_FUNCTION)"

definition IsProcSample :: "SampleOptions \<Rightarrow> bool" where
  "IsProcSample opts = (sample_type opts = SAMPLE_TYPE_PROC)"

text \<open>
  \<open>fuzzer::CrasherConfigurationProto\<close>, as the two functions use it: an optional
  \<open>exception\<close>, an \<open>issue\<close>, the sample options and the inputs, which hold either
  \<open>function_args\<close> (one string per argument row) or \<open>channel_inputs\<close> (one entry per
  channel: its name and its values).
\<close>

datatype InputsProto =
    InputsUnset
  | FunctionArgs "string list"
  | ChannelInputs "(string \<times> string list) list"

record CrasherConfigurationProto =
  cfg_exception :: "string option"
  cfg_issue :: string
  cfg_sample_options :: SampleOptionsProto
  cfg_inputs :: InputsProto

text \<open>
  A \<open>Sample\<close>: the input text, the options, the argument batch (a list of rows of
  interpreter values) and the channel names of a proc sample. The interpreter value
  type is the parameter \<open>'v\<close>.
\<close>

record 'v Sample =
  input_text :: string
  options :: SampleOptions
  args_batch :: "'v list list"
  ir_channel_names :: "string list"

text \<open>
  The collaborators that are outside this file: the IR-canonical hex rendering of a
  value (\<open>ConvertToIr().value().ToString(kHex)\<close>), the protobuf text printer and parser,
  \<open>Parser::ParseTypedValue\<close> followed by \<open>ValueToInterpValue\<close>, \<open>dslx::ParseArgs\<close>, and
  \<open>InterpValue::Eq\<close>. They are parameters of the model.
\<close>

record 'v externals =
  ext_ToArgString :: "'v \<Rightarrow> string"
  ext_DebugString :: "CrasherConfigurationProto \<Rightarrow> string"
  ext_ParseTextProto :: "string \<Rightarrow> error + CrasherConfigurationProto"
  ext_ParseTypedValue :: "string \<Rightarrow> error + 'v"
  ext_ParseArgs :: "string \<Rightarrow> error + 'v list"
  ext_Eq :: "'v \<Rightarrow> 'v \<Rightarrow> bool"

subsection \<open>Serialize\<close>

definition kStartConfig :: string where
  "kStartConfig = ''BEGIN_CONFIG''"

definition kEndConfig :: string where
  "kEndConfig = ''END_CONFIG''"

definition InterpValueListToString :: "'v externals \<Rightarrow> 'v list \<Rightarrow> string" where
  "InterpValueListToString ext interpv_list =
     StrJoin (map (ext_ToArgString ext) interpv_list) ''; ''"

text \<open>
  The inner loop of the proc branch reads \<open>args[i]\<close> of every row. Reading past the end
  of a row is undefined in C++; the model has no result there (\<open>None\<close>).
\<close>

definition channel_values :: "'v externals \<Rightarrow> 'v list list \<Rightarrow> nat \<Rightarrow> string list option" where
  "channel_values ext batch i =
     (if list_all (\<lambda>args. i < length args) batch
      then Some (map (\<lambda>args. ext_ToArgString ext (args ! i)) batch)
      else None)"

fun channel_inputs_from :: "'v externals \<Rightarrow> 'v list list \<Rightarrow> nat \<Rightarrow> string list
    \<Rightarrow> (string \<times> string list) list option" where
  "channel_inputs_from ext batch i [] = Some []"
| "channel_inputs_from ext batch i (name # names) =
     (case channel_values ext batch i of
        None \<Rightarrow> None
      | Some vals \<Rightarrow>
          (case channel_inputs_from ext batch (Suc i) names of
             None \<Rightarrow> None
           | Some rest \<Rightarrow> Some ((name, vals) # rest)))"

definition kIssue :: string where
  "kIssue = ''DO NOT '' @ ''SUBMIT Insert link to GitHub issue here.''"

definition MakeConfig :: "'v externals \<Rightarrow> 'v Sample \<Rightarrow> string option
    \<Rightarrow> CrasherConfigurationProto option" where
  "MakeConfig ext s error_message =
     (if IsFunctionSample (options s) then
        Some \<lparr>cfg_exception = error_message, cfg_issue = kIssue,
              cfg_sample_options = options s,
              cfg_inputs = FunctionArgs (map (InterpValueListToString ext) (args_batch s))\<rparr>
      else if \<not> IsProcSample (options s) then None
      else
        (case channel_inputs_from ext (args_batch s) 0 (ir_channel_names s) of
           None \<Rightarrow> None
         | Some chans \<Rightarrow>
             Some \<lparr>cfg_exception = error_message, cfg_issue = kIssue,
                   cfg_sample_options = options s,
                   cfg_inputs = ChannelInputs chans\<rparr>))"

text \<open>\<open>absl::StrFormat("// %s", line)\<close>.\<close>

definition comment_line :: "string \<Rightarrow> string" where
  "comment_line line = ''// '' @ line"

definition header_lines :: "'v externals \<Rightarrow> CrasherConfigurationProto \<Rightarrow> string list" where
  "header_lines ext config =
     [comment_line kStartConfig]
     @ map comment_line (StrSplit (ext_DebugString ext config) NL)
     @ [comment_line kEndConfig]"

definition Serialize :: "'v externals \<Rightarrow> 'v Sample \<Rightarrow> string option \<Rightarrow> string option" where
  "Serialize ext s error_message =
     (case MakeConfig ext s error_message of
        None \<Rightarrow> None
      | Some config \<Rightarrow>
          (let header = StrJoin (header_lines ext config) [NL]
           in Some (header @ [NL] @ input_text s @ [NL])))"

subsection \<open>Deserialize\<close>

text \<open>The three variables the line loop of \<open>Deserialize\<close> updates.\<close>

record scan_state =
  in_config :: bool
  config_lines :: "string list"
  dslx_lines :: "string list"

definition scan_line :: "scan_state \<Rightarrow> string \<Rightarrow> scan_state" where
  "scan_line st line =
     (let stripped_line = StripAsciiWhitespace line in
      if stripped_line = [] then st
      else if StartsWith stripped_line ''//'' then
        (let contents = StripAsciiWhitespace (StripPrefix stripped_line ''//'') in
         if contents = kStartConfig then st\<lparr>in_config := True\<rparr>
         else if contents = kEndConfig then st\<lparr>in_config := False\<rparr>
         else if in_config st then st\<lparr>config_lines := config_lines st @ [contents]\<rparr>
         else st)
      else st\<lparr>dslx_lines := dslx_lines st @ [line]\<rparr>)"

definition scan_lines :: "string \<Rightarrow> scan_state" where
  "scan_lines s =
     foldl scan_line \<lparr>in_config = False, config_lines = [], dslx_lines = []\<rparr> (StrSplit s NL)"

text \<open>
  The proc branch: for the values of one channel, value \<open>i\<close> is parsed and pushed onto
  row \<open>i\<close> of the batch, which is first resized to \<open>i + 1\<close> rows when it is shorter.
\<close>

fun add_channel_values :: "'v externals \<Rightarrow> string list \<Rightarrow> nat \<Rightarrow> 'v list list
    \<Rightarrow> error + 'v list list" where
  "add_channel_values ext [] i batch = Inr batch"
| "add_channel_values ext (value_str # rest) i batch =
     (case ext_ParseTypedValue ext value_str of
        Inl e \<Rightarrow> Inl e
      | Inr interp_value \<Rightarrow>
          (let resized = (if length batch \<le> i
                          then batch @ replicate (i + 1 - length batch) []
                          else batch)
           in add_channel_values ext rest (Suc i)
                (resized[i := resized ! i @ [interp_value]])))"

fun read_channel_inputs :: "'v externals \<Rightarrow> (string \<times> string list) list
    \<Rightarrow> string list \<Rightarrow> 'v list list \<Rightarrow> error + (string list \<times> 'v list list)" where
  "read_channel_inputs ext [] names batch = Inr (names, batch)"
| "read_channel_inputs ext ((channel_name, vals) # rest) names batch =
     (case add_channel_values ext vals 0 batch of
        Inl e \<Rightarrow> Inl e
      | Inr batch' \<Rightarrow> read_channel_inputs ext rest (names @ [channel_name]) batch')"

fun read_function_args :: "'v externals \<Rightarrow> string list \<Rightarrow> 'v list list
    \<Rightarrow> error + 'v list list" where
  "read_function_args ext [] batch = Inr batch"
| "read_function_args ext (arg # rest) batch =
     (case ext_ParseArgs ext arg of
        Inl e \<Rightarrow> Inl e
      | Inr args \<Rightarrow> read_function_args ext rest (batch @ [args]))"

text \<open>
  \<open>proto.inputs().channel_inputs().inputs()\<close> is the empty list when the inputs hold no
  channel inputs; \<open>has_function_args()\<close> tells whether they hold function arguments.
\<close>

fun channel_inputs_of :: "InputsProto \<Rightarrow> (string \<times> string list) list" where
  "channel_inputs_of (ChannelInputs cs) = cs"
| "channel_inputs_of _ = []"

fun has_function_args :: "InputsProto \<Rightarrow> bool" where
  "has_function_args (FunctionArgs _) = True"
| "has_function_args _ = False"

fun function_args_of :: "InputsProto \<Rightarrow> string list" where
  "function_args_of (FunctionArgs as) = as"
| "function_args_of _ = []"

definition Deserialize :: "'v externals \<Rightarrow> string \<Rightarrow> error + 'v Sample" where
  "Deserialize ext s =
     (let st = scan_lines s in
      if config_lines st = [] then
        Inl (InvalidArgumentError ''Fuzz sample has a missing or empty config'')
      else
        (case ext_ParseTextProto ext (StrJoin (config_lines st) [NL]) of
           Inl e \<Rightarrow> Inl e
         | Inr proto \<Rightarrow>
             (case FromProto (cfg_sample_options proto) of
                Inl e \<Rightarrow> Inl e
              | Inr opts \<Rightarrow>
                  (let dslx_code = StrJoin (dslx_lines st) [NL] in
                   if sample_type (cfg_sample_options proto) = SAMPLE_TYPE_PROC then
                     (case read_channel_inputs ext (channel_inputs_of (cfg_inputs proto)) [] [] of
                        Inl e \<Rightarrow> Inl e
                      | Inr (names, batch) \<Rightarrow>
                          Inr \<lparr>input_text = dslx_code, options = opts,
                               args_batch = batch, ir_channel_names = names\<rparr>)
                   else if \<not> has_function_args (cfg_inputs proto) then
                     Inl (InternalError ''proto.inputs().has_function_args()'')
                   else
                     (case read_function_args ext (function_args_of (cfg_inputs proto)) [] of
                        Inl e \<Rightarrow> Inl e
                      | Inr batch \<Rightarrow>
                          Inr \<lparr>input_text = dslx_code, options = opts,
                               args_batch = batch, ir_channel_names = []\<rparr>)))))"

subsection \<open>Equality of samples\<close>

text \<open>
  \<open>Sample::ArgsBatchEqual\<close>: the same number of rows, each pair of rows of the same length
  and element-wise equal by \<open>InterpValue::Eq\<close>.
\<close>

definition args_equal :: "'v externals \<Rightarrow> 'v list \<Rightarrow> 'v list \<Rightarrow> bool" where
  "args_equal ext lhs rhs = (length lhs = length rhs \<and> list_all2 (ext_Eq ext) lhs rhs)"

definition ArgsBatchEqual :: "'v externals \<Rightarrow> 'v Sample \<Rightarrow> 'v Sample \<Rightarrow> bool" where
  "ArgsBatchEqual ext a b =
     (length (args_batch a) = length (args_batch b) \<and>
      list_all2 (args_equal ext) (args_batch a) (args_batch b))"

text \<open>
  Modelled from the spec: \<open>Sample::operator==\<close> is declared in sample.h, which is not
  among the sources. The spec (4.G): two samples are equal iff their source text, options
  (field-wise) and argument batches (element-wise by IR-value equality) match.
\<close>

definition Sample_eq :: "'v externals \<Rightarrow> 'v Sample \<Rightarrow> 'v Sample \<Rightarrow> bool" where
  "Sample_eq ext a b =
     (input_text a = input_text b \<and> SampleOptions_eq (options a) (options b) \<and>
      ArgsBatchEqual ext a b)"

subsection \<open>Vocabulary for the properties of the codec\<close>

text \<open>
  A line that \<open>Deserialize\<close> keeps as source text: not blank after stripping, and its
  stripped form does not begin with \<open>//\<close>.
\<close>

definition is_source_line :: "string \<Rightarrow> bool" where
  "is_source_line line =
     (StripAsciiWhitespace line \<noteq> [] \<and> \<not> StartsWith (StripAsciiWhitespace line) ''//'')"

text \<open>What \<open>Deserialize\<close> reads from a line whose stripped form begins with \<open>//\<close>.\<close>

definition comment_contents :: "string \<Rightarrow> string" where
  "comment_contents line =
     StripAsciiWhitespace (StripPrefix (StripAsciiWhitespace line) ''//'')"

text \<open>A comment line of the source text that would reopen the config section.\<close>

definition reopens_config :: "string \<Rightarrow> bool" where
  "reopens_config line =
     (StartsWith (StripAsciiWhitespace line) ''//'' \<and> comment_contents line = kStartConfig)"

text \<open>
  The layout of the serialized text as the spec (4.G) words it: the line
  \<open>// BEGIN_CONFIG\<close>, the config lines prefixed with \<open>// \<close>, the line \<open>// END_CONFIG\<close>,
  a blank line, the raw source text.
\<close>

definition spec_serialized :: "string list \<Rightarrow> string \<Rightarrow> string" where
  "spec_serialized cfg_lines src =
     concat (map (\<lambda>l. l @ [NL])
       ([''// BEGIN_CONFIG''] @ map (\<lambda>l. ''// '' @ l) cfg_lines @ [''// END_CONFIG''] @ [[]]))
     @ src"

text \<open>
  Two source texts that differ only in blank lines (whitespace at blank-line
  boundaries): their non-blank lines are the same.
\<close>

definition nonblank_lines :: "string \<Rightarrow> string list" where
  "nonblank_lines src = filter (\<lambda>l. StripAsciiWhitespace l \<noteq> []) (StrSplit src NL)"

subsection \<open>Example collaborators and samples\<close>

text \<open>
  Stand-ins for the collaborators, used to run the model on concrete samples: values
  are carried in their textual form, the config printer writes one field per line, and
  the config parser recognises the printed form of the configs it is given.
\<close>

definition demo_DebugString :: "CrasherConfigurationProto \<Rightarrow> string" where
  "demo_DebugString config =
     concat (map (\<lambda>l. l @ [NL])
       ((case cfg_exception config of None \<Rightarrow> [] | Some e \<Rightarrow> [''exception: '' @ e])
        @ [''issue: '' @ cfg_issue config,
           ''sample_options {'',
           (case sample_type (cfg_sample_options config) of
              SAMPLE_TYPE_FUNCTION \<Rightarrow> ''  sample_type: SAMPLE_TYPE_FUNCTION''
            | SAMPLE_TYPE_PROC \<Rightarrow> ''  sample_type: SAMPLE_TYPE_PROC''),
           ''}'',
           ''inputs {'']
        @ map (\<lambda>a. ''  args: '' @ a) (function_args_of (cfg_inputs config))
        @ concat (map (\<lambda>(n, vs). (''  channel_name: '' @ n) # map (\<lambda>v. ''  values: '' @ v) vs)
                   (channel_inputs_of (cfg_inputs config)))
        @ [''}'']))"

fun demo_ParseTextProto :: "CrasherConfigurationProto list \<Rightarrow> string
    \<Rightarrow> error + CrasherConfigurationProto" where
  "demo_ParseTextProto [] text = Inl (ExternalError ''text proto parse error'')"
| "demo_ParseTextProto (config # known) text =
     (if text = StrJoin (map StripAsciiWhitespace (StrSplit (demo_DebugString config) NL)) [NL]
      then Inr config else demo_ParseTextProto known text)"

definition demo_ParseArgs :: "string \<Rightarrow> error + string list" where
  "demo_ParseArgs s =
     Inr (if s = [] then [] else map StripAsciiWhitespace (StrSplit s (CHR '';'')))"

definition demo_ext :: "CrasherConfigurationProto list \<Rightarrow> string externals" where
  "demo_ext known =
     \<lparr>ext_ToArgString = (\<lambda>v. v),
      ext_DebugString = demo_DebugString,
      ext_ParseTextProto = demo_ParseTextProto known,
      ext_ParseTypedValue = Inr,
      ext_ParseArgs = demo_ParseArgs,
      ext_Eq = (=)\<rparr>"

text \<open>\<open>SampleOptions::DefaultOptionsProto\<close>; the fields it does not set are the proto defaults.\<close>

definition DefaultOptionsProto :: SampleOptionsProto where
  "DefaultOptionsProto =
     \<lparr>input_is_dslx = True, sample_type = SAMPLE_TYPE_FUNCTION, ir_converter_args = [],
      convert_to_ir = True, optimize_ir = True, use_jit = True, codegen = False,
      codegen_args = [], simulate = False, simulator = [], use_system_verilog = True,
      timeout_seconds = 0, calls_per_sample = 1, proc_ticks = 0\<rparr>"

definition demo_function_sample :: "string Sample" where
  "demo_function_sample =
     \<lparr>input_text = ''// adds one'' @ [NL] @ ''fn main(x: u8) -> u8 {'' @ [NL] @ ''  x + u8:1'' @ [NL] @ ''}'',
      options = DefaultOptionsProto,
      args_batch = [[''bits[8]:0x1''], [''bits[8]:0x2a'']],
      ir_channel_names = []\<rparr>"

definition demo_proc_sample :: "string Sample" where
  "demo_proc_sample =
     \<lparr>input_text = ''proc main { }'',
      options = DefaultOptionsProto\<lparr>sample_type := SAMPLE_TYPE_PROC\<rparr>,
      args_batch = [[''bits[8]:0x0'', ''bits[8]:0x1''], [''bits[8]:0x10'', ''bits[8]:0x11'']],
      ir_channel_names = [''c0'', ''c1'']\<rparr>"

text \<open>A proc sample without channels whose argument batch is one empty row.\<close>

definition demo_no_channel_sample :: "string Sample" where
  "demo_no_channel_sample =
     \<lparr>input_text = ''proc main { }'',
      options = DefaultOptionsProto\<lparr>sample_type := SAMPLE_TYPE_PROC\<rparr>,
      args_batch = [[]],
      ir_channel_names = []\<rparr>"

definition demo_config :: "string Sample \<Rightarrow> CrasherConfigurationProto" where
  "demo_config s = the (MakeConfig (demo_ext []) s None)"

section \<open>Type-mismatch formatter (xls/dslx/type_system/format_type_mismatch.cc)\<close>

subsection \<open>Types\<close>

text \<open>
  Modelled from the spec: the type classes (xls/dslx/type_system/type.h) are not among
  the sources. The spec (3, type algebra) gives the closed variant set: Bits(width),
  Tuple(children), Struct(nominal name, field names, field types), Array(element, size),
  Channel(payload), Function(params, return), Meta(inner).
\<close>

datatype Type =
    BitsType nat
  | TupleType "Type list"
  | StructType string "string list" "Type list"
  | ArrayType Type nat
  | ChannelType Type
  | FunctionType "Type list" Type
  | MetaType Type

text \<open>Decimal rendering of a number, as \<open>absl::StrCat\<close> and \<open>ToString\<close> print it.\<close>

fun dec_string :: "nat \<Rightarrow> string" where
  "dec_string n =
     (if n < 10 then [char_of (48 + n)]
      else dec_string (n div 10) @ [char_of (48 + n mod 10)])"

text \<open>
  The number of members of a tuple or struct (\<open>size()\<close>), and the name of a struct
  member (\<open>GetMemberName\<close>).
\<close>

fun member_count :: "Type \<Rightarrow> nat" where
  "member_count (TupleType ts) = length ts"
| "member_count (StructType n fs ts) = length ts"
| "member_count _ = 0"

subsection \<open>The callbacks\<close>

definition kAnsiReset :: string where
  "kAnsiReset = [CHR 0x1B] @ ''[0m''"

definition kAnsiRed :: string where
  "kAnsiRed = [CHR 0x1B] @ ''[31m''"

definition kAnsiBoldOn :: string where
  "kAnsiBoldOn = [CHR 0x1B] @ ''[1m''"

definition kAnsiBoldOff :: string where
  "kAnsiBoldOff = [CHR 0x1B] @ ''[22m''"

text \<open>The members of \<open>Callbacks\<close>; \<open>mismatches\<close> is the vector the constructor is given.\<close>

record Callbacks =
  colorized_lhs :: string
  colorized_rhs :: string
  mismatches :: "(string \<times> string) list"
  match_count :: int

definition AddMatched_lhs :: "string \<Rightarrow> Callbacks \<Rightarrow> Callbacks" where
  "AddMatched_lhs matched_text cb = cb\<lparr>colorized_lhs := colorized_lhs cb @ matched_text\<rparr>"

definition AddMatched_rhs :: "string \<Rightarrow> Callbacks \<Rightarrow> Callbacks" where
  "AddMatched_rhs matched_text cb = cb\<lparr>colorized_rhs := colorized_rhs cb @ matched_text\<rparr>"

definition AddMatchedBoth :: "string \<Rightarrow> Callbacks \<Rightarrow> Callbacks" where
  "AddMatchedBoth matched_text cb = AddMatched_rhs matched_text (AddMatched_lhs matched_text cb)"

definition AddMismatched :: "string \<Rightarrow> string \<Rightarrow> Callbacks \<Rightarrow> Callbacks" where
  "AddMismatched lhs rhs cb =
     cb\<lparr>colorized_lhs := colorized_lhs cb @ kAnsiRed @ lhs @ kAnsiReset,
        colorized_rhs := colorized_rhs cb @ kAnsiRed @ rhs @ kAnsiReset\<rparr>"

text \<open>
  \<open>NoteAggregateStart\<close> and \<open>NoteAggregateEnd\<close> visit an \<open>AggregatePair\<close>, a variant over
  pairs of pointers to the same aggregate class. The model takes the two types; a pair
  that the variant cannot hold is answered with an internal error.
\<close>

definition not_an_aggregate_pair :: "error + Callbacks" where
  "not_an_aggregate_pair = Inl (InternalError ''not an aggregate pair'')"

fun NoteAggregateStart :: "Type \<Rightarrow> Type \<Rightarrow> Callbacks \<Rightarrow> error + Callbacks" where
  "NoteAggregateStart (TupleType ls) rhs cb =
     (case rhs of TupleType rs \<Rightarrow> Inr (AddMatchedBoth ''('' cb) | _ \<Rightarrow> not_an_aggregate_pair)"
| "NoteAggregateStart (StructType n fs ls) rhs cb =
     (case rhs of StructType n' fs' rs \<Rightarrow> Inr (AddMatchedBoth (n @ ''{'') cb)
      | _ \<Rightarrow> not_an_aggregate_pair)"
| "NoteAggregateStart (ArrayType l k) rhs cb =
     (case rhs of ArrayType r k' \<Rightarrow> Inr cb | _ \<Rightarrow> not_an_aggregate_pair)"
| "NoteAggregateStart (ChannelType l) rhs cb =
     (case rhs of ChannelType r \<Rightarrow> Inr (AddMatchedBoth ''chan('' cb)
      | _ \<Rightarrow> not_an_aggregate_pair)"
| "NoteAggregateStart (FunctionType lp lr) rhs cb =
     (case rhs of
        FunctionType rp rr \<Rightarrow> Inl (UnimplementedError ''Cannot print diffs of function types.'')
      | _ \<Rightarrow> not_an_aggregate_pair)"
| "NoteAggregateStart (MetaType l) rhs cb =
     (case rhs of MetaType r \<Rightarrow> Inr (AddMatchedBoth ''typeof('' cb)
      | _ \<Rightarrow> not_an_aggregate_pair)"
| "NoteAggregateStart (BitsType w) rhs cb = not_an_aggregate_pair"

fun NoteAggregateEnd :: "Type \<Rightarrow> Type \<Rightarrow> Callbacks \<Rightarrow> error + Callbacks" where
  "NoteAggregateEnd (TupleType ls) rhs cb =
     (case rhs of TupleType rs \<Rightarrow> Inr (AddMatchedBoth '')'' cb) | _ \<Rightarrow> not_an_aggregate_pair)"
| "NoteAggregateEnd (StructType n fs ls) rhs cb =
     (case rhs of StructType n' fs' rs \<Rightarrow> Inr (AddMatchedBoth ''}'' cb)
      | _ \<Rightarrow> not_an_aggregate_pair)"
| "NoteAggregateEnd (ArrayType l k) rhs cb =
     (case rhs of
        ArrayType r k' \<Rightarrow>
          Inr (AddMatched_rhs (''['' @ dec_string k' @ '']'')
                (AddMatched_lhs (''['' @ dec_string k @ '']'') cb))
      | _ \<Rightarrow> not_an_aggregate_pair)"
| "NoteAggregateEnd (ChannelType l) rhs cb =
     (case rhs of ChannelType r \<Rightarrow> Inr (AddMatchedBoth '')'' cb) | _ \<Rightarrow> not_an_aggregate_pair)"
| "NoteAggregateEnd (FunctionType lp lr) rhs cb =
     (case rhs of
        FunctionType rp rr \<Rightarrow> Inl (UnimplementedError ''Cannot print diffs of function types.'')
      | _ \<Rightarrow> not_an_aggregate_pair)"
| "NoteAggregateEnd (MetaType l) rhs cb =
     (case rhs of MetaType r \<Rightarrow> Inr (AddMatchedBoth '')'' cb) | _ \<Rightarrow> not_an_aggregate_pair)"
| "NoteAggregateEnd (BitsType w) rhs cb = not_an_aggregate_pair"

text \<open>
  The parent of the type being visited: \<open>None\<close> for the null pointer, else the parent
  type and the index of the visited type in it (what \<open>IndexOf\<close> finds).
\<close>

type_synonym parent = "(Type \<times> nat) option"

fun BeforeType :: "parent \<Rightarrow> Callbacks \<Rightarrow> Callbacks" where
  "BeforeType (Some (StructType n fs ts, index)) cb =
     AddMatchedBoth ((if index < length fs then fs ! index else []) @ '': '') cb"
| "BeforeType _ cb = cb"

fun AfterType :: "parent \<Rightarrow> Callbacks \<Rightarrow> Callbacks" where
  "AfterType (Some (StructType n fs ts, index)) cb =
     (if index + 1 \<noteq> length ts then AddMatchedBoth '', '' cb else cb)"
| "AfterType (Some (TupleType ts, index)) cb =
     (if index + 1 \<noteq> length ts then AddMatchedBoth '', '' cb else cb)"
| "AfterType _ cb = cb"

definition NoteMatchedLeafType :: "(Type \<Rightarrow> string) \<Rightarrow> Type \<Rightarrow> parent \<Rightarrow> Type
    \<Rightarrow> Callbacks \<Rightarrow> error + Callbacks" where
  "NoteMatchedLeafType ToString lhs lhs_parent rhs cb =
     Inr (AfterType lhs_parent
           (AddMatched_rhs (ToString rhs)
             (AddMatched_lhs (ToString lhs)
               (BeforeType lhs_parent (cb\<lparr>match_count := match_count cb + 1\<rparr>)))))"

definition NoteTypeMismatch :: "(Type \<Rightarrow> string) \<Rightarrow> Type \<Rightarrow> parent \<Rightarrow> Type
    \<Rightarrow> Callbacks \<Rightarrow> error + Callbacks" where
  "NoteTypeMismatch ToString lhs lhs_parent rhs cb =
     Inr (AfterType lhs_parent
           (AddMismatched (ToString lhs) (ToString rhs)
             (BeforeType lhs_parent
               (cb\<lparr>mismatches := mismatches cb @ [(ToString lhs, ToString rhs)]\<rparr>))))"

subsection \<open>The driver\<close>

text \<open>
  Modelled from the spec: \<open>ZipTypes\<close> (xls/dslx/type_system/zip_types.cc) is not among
  the sources. The spec (4.F, walk protocol): the driver walks the two types in
  lock-step; on every pair of matched-structure leaves it emits \<open>matched_leaf\<close>; on
  aggregate entry and exit it emits \<open>aggregate_start\<close> / \<open>aggregate_end\<close>; on a shape
  mismatch at any position it emits \<open>type_mismatch\<close> and prunes that subtree. Two
  aggregates have the same shape when they are of the same variant with the same number
  of children, structs also with the same nominal name (3, structural equality);
  array sizes may differ (4.F). Two function types are entered as a pair of aggregates
  whatever their parameter counts: the spec (4.F, 8) gives the dedicated error for every
  function-type diff, and \<open>NoteAggregateStart\<close> is the callback that returns it. A status
  that is not OK ends the walk.
\<close>

fun same_shape :: "Type \<Rightarrow> Type \<Rightarrow> bool" where
  "same_shape (TupleType ls) rhs =
     (case rhs of TupleType rs \<Rightarrow> length ls = length rs | _ \<Rightarrow> False)"
| "same_shape (StructType n fs ls) rhs =
     (case rhs of StructType n' fs' rs \<Rightarrow> n = n' \<and> length ls = length rs | _ \<Rightarrow> False)"
| "same_shape (ArrayType l k) rhs = (case rhs of ArrayType r k' \<Rightarrow> True | _ \<Rightarrow> False)"
| "same_shape (ChannelType l) rhs = (case rhs of ChannelType r \<Rightarrow> True | _ \<Rightarrow> False)"
| "same_shape (FunctionType lp lr) rhs = (case rhs of FunctionType rp rr \<Rightarrow> True | _ \<Rightarrow> False)"
| "same_shape (MetaType l) rhs = (case rhs of MetaType r \<Rightarrow> True | _ \<Rightarrow> False)"
| "same_shape (BitsType w) rhs = False"

fun children :: "Type \<Rightarrow> Type list" where
  "children (BitsType w) = []"
| "children (TupleType ts) = ts"
| "children (StructType n fs ts) = ts"
| "children (ArrayType t k) = [t]"
| "children (ChannelType t) = [t]"
| "children (FunctionType ps r) = ps @ [r]"
| "children (MetaType t) = [t]"

fun ZipTypes :: "(Type \<Rightarrow> string) \<Rightarrow> Type \<Rightarrow> Type \<Rightarrow> parent \<Rightarrow> Callbacks
    \<Rightarrow> error + Callbacks"
and zip_children :: "(Type \<Rightarrow> string) \<Rightarrow> Type \<Rightarrow> Type list \<Rightarrow> Type list \<Rightarrow> nat \<Rightarrow> Callbacks
    \<Rightarrow> error + Callbacks"
and zip_aggregate :: "(Type \<Rightarrow> string) \<Rightarrow> Type \<Rightarrow> Type list \<Rightarrow> Type \<Rightarrow> parent \<Rightarrow> Callbacks
    \<Rightarrow> error + Callbacks"
where
  "ZipTypes ToString (BitsType w) rhs lhs_parent cb =
     (if BitsType w = rhs then NoteMatchedLeafType ToString (BitsType w) lhs_parent rhs cb
      else NoteTypeMismatch ToString (BitsType w) lhs_parent rhs cb)"
| "ZipTypes ToString (TupleType ts) rhs lhs_parent cb =
     zip_aggregate ToString (TupleType ts) ts rhs lhs_parent cb"
| "ZipTypes ToString (StructType n fs ts) rhs lhs_parent cb =
     zip_aggregate ToString (StructType n fs ts) ts rhs lhs_parent cb"
| "ZipTypes ToString (ArrayType t k) rhs lhs_parent cb =
     zip_aggregate ToString (ArrayType t k) [t] rhs lhs_parent cb"
| "ZipTypes ToString (ChannelType t) rhs lhs_parent cb =
     zip_aggregate ToString (ChannelType t) [t] rhs lhs_parent cb"
| "ZipTypes ToString (FunctionType ps r) rhs lhs_parent cb =
     zip_aggregate ToString (FunctionType ps r) (ps @ [r]) rhs lhs_parent cb"
| "ZipTypes ToString (MetaType t) rhs lhs_parent cb =
     zip_aggregate ToString (MetaType t) [t] rhs lhs_parent cb"
| "zip_aggregate ToString lhs lhs_children rhs lhs_parent cb =
     (if same_shape lhs rhs then
        (case NoteAggregateStart lhs rhs cb of
           Inl e \<Rightarrow> Inl e
         | Inr cb1 \<Rightarrow>
             (case zip_children ToString lhs lhs_children (children rhs) 0 cb1 of
                Inl e \<Rightarrow> Inl e
              | Inr cb2 \<Rightarrow> NoteAggregateEnd lhs rhs cb2))
      else NoteTypeMismatch ToString lhs lhs_parent rhs cb)"
| "zip_children ToString lhs (l # ls) (r # rs) index cb =
     (case ZipTypes ToString l r (Some (lhs, index)) cb of
        Inl e \<Rightarrow> Inl e
      | Inr cb1 \<Rightarrow> zip_children ToString lhs ls rs (Suc index) cb1)"
| "zip_children ToString lhs _ _ index cb = Inr cb"

subsection \<open>FormatTypeMismatch\<close>

definition FormatTypeMismatch :: "(Type \<Rightarrow> string) \<Rightarrow> Type \<Rightarrow> Type \<Rightarrow> error + string" where
  "FormatTypeMismatch ToString lhs rhs =
     (case ZipTypes ToString lhs rhs None
             \<lparr>colorized_lhs = [], colorized_rhs = [], mismatches = [], match_count = 0\<rparr> of
        Inl e \<Rightarrow> Inl e
      | Inr callbacks \<Rightarrow>
          Inr (StrJoin
            (if match_count callbacks = 0 then
               [''Type mismatch:'', ''   '' @ ToString lhs, ''vs '' @ ToString rhs]
             else
               [kAnsiReset @ ''Mismatched elements '' @ kAnsiBoldOn @ ''within'' @ kAnsiBoldOff
                  @ '' type:'']
               @ concat (map (\<lambda>(lhs_mismatch, rhs_mismatch).
                                [''   '' @ lhs_mismatch, ''vs '' @ rhs_mismatch])
                             (mismatches callbacks))
               @ [kAnsiBoldOn @ ''Overall'' @ kAnsiBoldOff @ '' type mismatch:'',
                  kAnsiReset @ ''   '' @ colorized_lhs callbacks,
                  ''vs '' @ colorized_rhs callbacks])
            [NL]))"

text \<open>
  The walk reaches a pair of function types: the two types are function types, or they
  are aggregates of the same shape and the walk reaches such a pair in one of their pairs
  of children.
\<close>

inductive reaches_function_pair :: "Type \<Rightarrow> Type \<Rightarrow> bool" where
  here: "reaches_function_pair (FunctionType lp lr) (FunctionType rp rr)"
| inside: "same_shape lhs rhs \<Longrightarrow> i < length (children lhs) \<Longrightarrow> i < length (children rhs)
           \<Longrightarrow> reaches_function_pair (children lhs ! i) (children rhs ! i)
           \<Longrightarrow> reaches_function_pair lhs rhs"

text \<open>A rendering of types for the examples.\<close>

fun demo_ToString :: "Type \<Rightarrow> string"
and demo_ToStrings :: "Type list \<Rightarrow> string" where
  "demo_ToString (BitsType w) = ''uN['' @ dec_string w @ '']''"
| "demo_ToString (TupleType ts) = ''('' @ demo_ToStrings ts @ '')''"
| "demo_ToString (StructType n fs ts) = n @ '' {'' @ demo_ToStrings ts @ ''}''"
| "demo_ToString (ArrayType t k) = demo_ToString t @ ''['' @ dec_string k @ '']''"
| "demo_ToString (ChannelType t) = ''chan('' @ demo_ToString t @ '')''"
| "demo_ToString (FunctionType ps r) = ''('' @ demo_ToStrings ps @ '') -> '' @ demo_ToString r"
| "demo_ToString (MetaType t) = ''typeof('' @ demo_ToString t @ '')''"
| "demo_ToStrings [] = []"
| "demo_ToStrings [t] = demo_ToString t"
| "demo_ToStrings (t # u # ts) = demo_ToString t @ '', '' @ demo_ToStrings (u # ts)"

section \<open>The IR graph\<close>

text \<open>
  Modelled from the spec: the classes \<open>Node\<close>, \<open>FunctionBase\<close> and \<open>Package\<close> (xls/ir) are
  not among the sources. The spec (3, data model): a node has an identifier, an operation
  kind, an ordered list of operand references (duplicates allowed), an optional assigned
  name and an optional source location; a FunctionBase owns an insertion-ordered set of
  nodes, a designated return value (functions) and a name, its parameters form a
  distinguished list in signature order; a package owns FunctionBases. Nodes are
  referred to by their identifiers. Of the operation kinds, the ones the sources
  distinguish are kept apart: parameters, invokes (with the name of the function they
  apply), covers (with their label) and asserts (with their message and optional label).
\<close>

datatype Op =
    Param
  | Invoke string
  | Cover string
  | Assert string "string option"
  | OtherOp string

record Node =
  node_id :: nat
  node_op :: Op
  node_operands :: "nat list"
  node_name :: "string option"
  node_loc :: "nat list"

record FunctionBase =
  fb_name :: string
  fb_nodes :: "Node list"
  fb_params :: "nat list"
  fb_return :: "nat option"
  fb_foreign :: bool

record Package =
  pkg_functions :: "FunctionBase list"
  pkg_next_id :: nat

definition node_ids :: "FunctionBase \<Rightarrow> nat list" where
  "node_ids f = map node_id (fb_nodes f)"

definition get_node :: "FunctionBase \<Rightarrow> nat \<Rightarrow> Node option" where
  "get_node f n = find (\<lambda>x. node_id x = n) (fb_nodes f)"

definition operands_of :: "FunctionBase \<Rightarrow> nat \<Rightarrow> nat list" where
  "operands_of f n = (case get_node f n of None \<Rightarrow> [] | Some x \<Rightarrow> node_operands x)"

text \<open>The users of a node: the nodes that have it among their operands, each once.\<close>

definition users_of :: "FunctionBase \<Rightarrow> nat \<Rightarrow> nat list" where
  "users_of f n = map node_id (filter (\<lambda>u. n \<in> set (node_operands u)) (fb_nodes f))"

text \<open>
  The invariants of a FunctionBase (spec, 3): identifiers are unique, every operand
  reference resolves to a node of the same FunctionBase, the return value is a node of
  it, and the operand graph has no cycle.
\<close>

definition operand_edges :: "FunctionBase \<Rightarrow> (nat \<times> nat) list" where
  "operand_edges f =
     concat (map (\<lambda>x. map (\<lambda>o'. (o', node_id x)) (node_operands x)) (fb_nodes f))"

definition well_formed :: "FunctionBase \<Rightarrow> bool" where
  "well_formed f =
     (distinct (node_ids f) \<and>
      (\<forall>x\<in>set (fb_nodes f). set (node_operands x) \<subseteq> set (node_ids f)) \<and>
      (case fb_return f of None \<Rightarrow> True | Some r \<Rightarrow> r \<in> set (node_ids f)))"

definition DAG_invariant :: "FunctionBase \<Rightarrow> bool" where
  "DAG_invariant f = (well_formed f \<and> acyclic (set (operand_edges f)))"

section \<open>Topological sort (xls/ir/topo_sort.h)\<close>

text \<open>
  Modelled from the spec: the bodies of \<open>TopoSort\<close> and \<open>ReverseTopoSort\<close> are not among
  the sources; topo_sort.h declares them and node_iterator_test.cc tests them. The spec
  (4.B) fixes the contract (every node once, operands before users, deterministic), says
  that the traversal is dependency-driven and not a post-order, that several operand
  edges to one node count once, that unused parameters appear in parameter order, and
  that the reverse order is the order reversed. Its sentence on ties (insertion order)
  cannot be followed to the letter, since it contradicts the order \<open>[a, b, c, t, d]\<close> that
  the spec and the test \<open>RpoVsTopo\<close> give for the ladder; the test's comment has the
  traversal start from the return value and be reversed at the end
  (\<open>D T C B A =(rev)=> A B C T D\<close>). The model is the traversal that yields the order of
  every test of node_iterator_test.cc: a queue of ready nodes, seeded with the nodes
  that have no users (the return value first, then the others, last inserted first); a
  node taken from the queue is appended to the order, and each of its distinct operands,
  last operand first, joins the queue once all its users are in the order.
  \<open>ReverseTopoSort\<close> gives that order and \<open>TopoSort\<close> its reverse.
\<close>

definition all_users_scheduled :: "FunctionBase \<Rightarrow> nat list \<Rightarrow> nat \<Rightarrow> bool" where
  "all_users_scheduled f ordered n = list_all (\<lambda>u. u \<in> set ordered) (users_of f n)"

definition newly_ready :: "FunctionBase \<Rightarrow> nat list \<Rightarrow> nat \<Rightarrow> nat list" where
  "newly_ready f ordered r =
     filter (all_users_scheduled f ordered) (rev (remdups (operands_of f r)))"

definition seed_ready :: "FunctionBase \<Rightarrow> nat list" where
  "seed_ready f =
     (case fb_return f of
        None \<Rightarrow> []
      | Some r \<Rightarrow> if users_of f r = [] then [r] else [])
     @ rev (filter (\<lambda>n. users_of f n = [] \<and> fb_return f \<noteq> Some n) (node_ids f))"

partial_function (option) topo_loop :: "FunctionBase \<Rightarrow> nat list \<Rightarrow> nat list \<Rightarrow> nat list option"
where
  "topo_loop f ready ordered =
     (case ready of
        [] \<Rightarrow> Some ordered
      | r # rest \<Rightarrow> topo_loop f (rest @ newly_ready f (ordered @ [r]) r) (ordered @ [r]))"

declare topo_loop.simps [code]

definition ReverseTopoSort :: "FunctionBase \<Rightarrow> nat list option" where
  "ReverseTopoSort f = topo_loop f (seed_ready f) []"

definition TopoSort :: "FunctionBase \<Rightarrow> nat list option" where
  "TopoSort f = map_option rev (ReverseTopoSort f)"

text \<open>Operands before users: every operand of the node at an index is at a smaller index.\<close>

definition operands_first :: "FunctionBase \<Rightarrow> nat list \<Rightarrow> bool" where
  "operands_first f order =
     (\<forall>j<length order. \<forall>o'\<in>set (operands_of f (order ! j)). \<exists>i<j. order ! i = o')"

text \<open>
  The tie rule of the spec, for a given order: whenever the node at index \<open>j\<close> was already
  ready when the node at an earlier index \<open>i\<close> was emitted (all its operands are among the
  first \<open>i\<close> nodes), the node at \<open>i\<close> was inserted into the FunctionBase before it.
\<close>

definition insertion_index :: "FunctionBase \<Rightarrow> nat \<Rightarrow> nat" where
  "insertion_index f n = length (takeWhile (\<lambda>m. m \<noteq> n) (node_ids f))"

definition ready_at :: "FunctionBase \<Rightarrow> nat list \<Rightarrow> nat \<Rightarrow> nat \<Rightarrow> bool" where
  "ready_at f order i n = list_all (\<lambda>o'. o' \<in> set (take i order)) (operands_of f n)"

definition ties_in_insertion_order :: "FunctionBase \<Rightarrow> nat list \<Rightarrow> bool" where
  "ties_in_insertion_order f order =
     list_all (\<lambda>j. list_all (\<lambda>i. if ready_at f order i (order ! j)
                               then insertion_index f (order ! i) < insertion_index f (order ! j)
                               else True)
                            [0..<j])
              [0..<length order]"

text \<open>
  \<open>Node::GetName\<close>: the assigned name, or else the name made of the operation and the
  identifier.
\<close>

fun OpToString :: "Op \<Rightarrow> string" where
  "OpToString Param = ''param''"
| "OpToString (Invoke callee) = ''invoke''"
| "OpToString (Cover label) = ''cover''"
| "OpToString (Assert message label) = ''assert''"
| "OpToString (OtherOp name) = name"

definition GetName :: "Node \<Rightarrow> string" where
  "GetName node =
     (case node_name node of
        Some name \<Rightarrow> name
      | None \<Rightarrow> OpToString (node_op node) @ ''.'' @ dec_string (node_id node))"

definition names_in_order :: "FunctionBase \<Rightarrow> nat list \<Rightarrow> string list" where
  "names_in_order f order =
     map (\<lambda>n. case get_node f n of None \<Rightarrow> [] | Some x \<Rightarrow> GetName x) order"

text \<open>The invariant of the loop of the traversal, for the proofs.\<close>

definition users_before :: "FunctionBase \<Rightarrow> nat list \<Rightarrow> bool" where
  "users_before f ordered =
     (\<forall>k<length ordered. set (users_of f (ordered ! k)) \<subseteq> set (take k ordered))"

definition loop_inv :: "FunctionBase \<Rightarrow> nat list \<Rightarrow> nat list \<Rightarrow> bool" where
  "loop_inv f ready ordered =
     (distinct (ordered @ ready) \<and>
      set (ordered @ ready) \<subseteq> set (node_ids f) \<and>
      (\<forall>n\<in>set ready. set (users_of f n) \<subseteq> set ordered) \<and>
      users_before f ordered \<and>
      (\<forall>n\<in>set (node_ids f). set (users_of f n) \<subseteq> set ordered \<longrightarrow> n \<in> set (ordered @ ready)))"

subsection \<open>The functions of node_iterator_test.cc\<close>

definition mk_node :: "nat \<Rightarrow> Op \<Rightarrow> nat list \<Rightarrow> string \<Rightarrow> Node" where
  "mk_node i op' ops name =
     \<lparr>node_id = i, node_op = op', node_operands = ops, node_name = Some name, node_loc = []\<rparr>"

text \<open>\<open>RpoVsTopo\<close>: \<open>fn computation(a) { t = neg(a); b = neg(a); c = neg(b); ret d = add(c, t) }\<close>\<close>

definition ladder :: FunctionBase where
  "ladder =
     \<lparr>fb_name = ''computation'',
      fb_nodes = [mk_node 0 Param [] ''a'',
                  mk_node 1 (OtherOp ''neg'') [0] ''t'',
                  mk_node 2 (OtherOp ''neg'') [0] ''b'',
                  mk_node 3 (OtherOp ''neg'') [2] ''c'',
                  mk_node 4 (OtherOp ''add'') [3, 1] ''d''],
      fb_params = [0], fb_return = Some 4, fb_foreign = False\<rparr>"

text \<open>\<open>Diamond\<close>: \<open>fn diamond(x) { neg.1 = neg(x); neg.2 = neg(x); ret add.3 = add(neg.1, neg.2) }\<close>\<close>

definition diamond :: FunctionBase where
  "diamond =
     \<lparr>fb_name = ''diamond'',
      fb_nodes = [mk_node 0 Param [] ''x'',
                  mk_node 1 (OtherOp ''neg'') [0] ''neg.1'',
                  mk_node 2 (OtherOp ''neg'') [0] ''neg.2'',
                  mk_node 3 (OtherOp ''add'') [1, 2] ''add.3''],
      fb_params = [0], fb_return = Some 3, fb_foreign = False\<rparr>"

text \<open>\<open>ReordersViaDependencies\<close>: a literal and its negation, the return value.\<close>

definition literal_neg :: FunctionBase where
  "literal_neg =
     \<lparr>fb_name = ''f'',
      fb_nodes = [mk_node 0 (OtherOp ''literal'') [] ''literal'',
                  mk_node 1 (OtherOp ''neg'') [0] ''neg''],
      fb_params = [], fb_return = Some 1, fb_foreign = False\<rparr>"

text \<open>\<open>PostOrderNotPreOrder\<close>: \<open>a = literal; b = add(a, a); c = add(a, b)\<close>, \<open>c\<close> returned.\<close>

definition post_order_not_pre_order :: FunctionBase where
  "post_order_not_pre_order =
     \<lparr>fb_name = ''f'',
      fb_nodes = [mk_node 0 (OtherOp ''literal'') [] ''a'',
                  mk_node 1 (OtherOp ''add'') [0, 0] ''b'',
                  mk_node 2 (OtherOp ''add'') [0, 1] ''c''],
      fb_params = [], fb_return = Some 2, fb_foreign = False\<rparr>"

text \<open>\<open>TwoOfSameOperandLinks\<close>: \<open>b = add(a, a); c = neg(a); ret d = add(b, c)\<close>\<close>

definition two_of_same_operand_links :: FunctionBase where
  "two_of_same_operand_links =
     \<lparr>fb_name = ''computation'',
      fb_nodes = [mk_node 0 Param [] ''a'',
                  mk_node 1 (OtherOp ''add'') [0, 0] ''b'',
                  mk_node 2 (OtherOp ''neg'') [0] ''c'',
                  mk_node 3 (OtherOp ''add'') [1, 2] ''d''],
      fb_params = [0], fb_return = Some 3, fb_foreign = False\<rparr>"

text \<open>\<open>UselessParamsUnrelatedReturn\<close>: \<open>fn computation(a, b) { ret r = literal(value=2) }\<close>\<close>

definition useless_params :: FunctionBase where
  "useless_params =
     \<lparr>fb_name = ''computation'',
      fb_nodes = [mk_node 0 Param [] ''a'',
                  mk_node 1 Param [] ''b'',
                  mk_node 2 (OtherOp ''literal'') [] ''r''],
      fb_params = [0, 1], fb_return = Some 2, fb_foreign = False\<rparr>"

text \<open>\<open>ExtendedDiamond\<close>: \<open>t = neg(a); c = neg(a); b = add(t, c); e = neg(c); ret d = add(b, e)\<close>\<close>

definition extended_diamond :: FunctionBase where
  "extended_diamond =
     \<lparr>fb_name = ''computation'',
      fb_nodes = [mk_node 0 Param [] ''a'',
                  mk_node 1 (OtherOp ''neg'') [0] ''t'',
                  mk_node 2 (OtherOp ''neg'') [0] ''c'',
                  mk_node 3 (OtherOp ''add'') [1, 2] ''b'',
                  mk_node 4 (OtherOp ''neg'') [2] ''e'',
                  mk_node 5 (OtherOp ''add'') [3, 4] ''d''],
      fb_params = [0], fb_return = Some 5, fb_foreign = False\<rparr>"

section \<open>Scheduling wrapper pass (xls/scheduling/scheduling_wrapper_pass.h)\<close>

text \<open>
  A pass on a package returns whether it changed the package, or an error. A scheduling
  unit pairs a package with a schedule, which maps nodes to pipeline stages.
\<close>

type_synonym Pass = "Package \<Rightarrow> error + (bool \<times> Package)"

record SchedulingUnit =
  su_package :: Package
  su_schedule :: "(nat \<times> nat) list"

text \<open>
  The members of \<open>SchedulingWrapperPass\<close> and its constructor, whose second argument
  \<open>reschedule_new_nodes\<close> may be left out and is then \<open>false\<close>.
\<close>

record SchedulingWrapperPass =
  wrapped_pass :: Pass
  reschedule_new_nodes :: bool

definition new_SchedulingWrapperPass :: "Pass \<Rightarrow> bool option \<Rightarrow> SchedulingWrapperPass" where
  "new_SchedulingWrapperPass wrapped reschedule =
     \<lparr>wrapped_pass = wrapped,
      reschedule_new_nodes = (case reschedule of None \<Rightarrow> False | Some b \<Rightarrow> b)\<rparr>"

definition package_node_ids :: "Package \<Rightarrow> nat list" where
  "package_node_ids p = concat (map node_ids (pkg_functions p))"

definition added_nodes :: "Package \<Rightarrow> Package \<Rightarrow> nat list" where
  "added_nodes before after =
     filter (\<lambda>n. n \<notin> set (package_node_ids before)) (package_node_ids after)"

definition added_node_error :: "nat \<Rightarrow> error" where
  "added_node_error n =
     InternalError (''SchedulingWrapperPass: the wrapped pass added node '' @ dec_string n)"

text \<open>
  Modelled from the spec: the body of \<open>SchedulingWrapperPass::RunInternal\<close>
  (scheduling_wrapper_pass.cc) is not among the sources; the header declares it and
  documents it. The spec (4.E) and the comment of the class: record the node set of the
  package, run the wrapped pass on the package, compare the node sets. Nodes removed by
  the pass are removed from the schedule. If nodes were added and
  \<open>reschedule_new_nodes\<close> is false, fail with an invariant-violation error that identifies
  an added node; if it is true, discard the schedule entirely. The wrapper returns the
  changed flag of the wrapped pass.
\<close>

definition SchedulingWrapperPass_RunInternal ::
    "SchedulingWrapperPass \<Rightarrow> SchedulingUnit \<Rightarrow> error + (bool \<times> SchedulingUnit)" where
  "SchedulingWrapperPass_RunInternal self unit =
     (case wrapped_pass self (su_package unit) of
        Inl e \<Rightarrow> Inl e
      | Inr (changed, package') \<Rightarrow>
          (case added_nodes (su_package unit) package' of
             [] \<Rightarrow>
               Inr (changed,
                    \<lparr>su_package = package',
                     su_schedule = filter (\<lambda>(n, stage). n \<in> set (package_node_ids package'))
                                     (su_schedule unit)\<rparr>)
           | n # _ \<Rightarrow>
               if reschedule_new_nodes self
               then Inr (changed, \<lparr>su_package = package', su_schedule = []\<rparr>)
               else Inl (added_node_error n)))"

text \<open>
  \<open>CreateSchedulingPassPipeline\<close> (scheduling_pass_pipeline.cc) wraps dead-code
  elimination and leaves the second argument out.
\<close>

definition pipeline_wrapper :: "Pass \<Rightarrow> SchedulingWrapperPass" where
  "pipeline_wrapper DeadCodeEliminationPass = new_SchedulingWrapperPass DeadCodeEliminationPass None"

subsection \<open>Examples\<close>

definition ladder_package :: Package where
  "ladder_package = \<lparr>pkg_functions = [ladder], pkg_next_id = 5\<rparr>"

definition ladder_unit :: SchedulingUnit where
  "ladder_unit =
     \<lparr>su_package = ladder_package, su_schedule = [(0, 0), (1, 0), (2, 0), (3, 1), (4, 1)]\<rparr>"

text \<open>A pass that adds a literal to every function of the package.\<close>

definition add_literal :: "nat \<Rightarrow> FunctionBase \<Rightarrow> FunctionBase" where
  "add_literal i f =
     f\<lparr>fb_nodes := fb_nodes f @
          [\<lparr>node_id = i, node_op = OtherOp ''literal'', node_operands = [],
            node_name = None, node_loc = []\<rparr>]\<rparr>"

definition adding_pass :: Pass where
  "adding_pass p =
     Inr (pkg_functions p \<noteq> [],
          \<lparr>pkg_functions =
             map (\<lambda>(k, f). add_literal (pkg_next_id p + k) f)
                 (zip [0..<length (pkg_functions p)] (pkg_functions p)),
           pkg_next_id = pkg_next_id p + length (pkg_functions p)\<rparr>)"

section \<open>Inlining pass (xls/passes/inlining_pass.cc)\<close>

subsection \<open>Operations of the IR that the pass calls\<close>

text \<open>
  Modelled from the spec: the operations of \<open>Package\<close>, \<open>FunctionBase\<close> and \<open>Node\<close> that the
  pass calls are not among the sources. The spec (3, lifecycle): creating a node appends
  it to the owning FunctionBase and gives it the next identifier; replace-all-uses
  rewrites the operand edges (and the return value) that refer to a node; a node is
  removed only after all its uses have been redirected, removal fails otherwise. The
  spec (4.C) and the comment in \<open>InlineInvoke\<close>: replacing the uses of a node moves its
  assigned name to the replacement when the replacement has none.

  Names, when assigned, are unique within a FunctionBase (3). The spec does not say which
  name a node gets when the name asked for is taken, and the name uniquer is not among
  the sources: the function that gives the name to use, from the FunctionBase and the name
  asked for, is the parameter \<open>UniquifyNodeName\<close> of every operation that creates a node with
  a name or sets a name.
\<close>

type_synonym name_uniquer = "FunctionBase \<Rightarrow> string \<Rightarrow> string"

definition get_function :: "Package \<Rightarrow> string \<Rightarrow> FunctionBase option" where
  "get_function p name = find (\<lambda>f. fb_name f = name) (pkg_functions p)"

definition map_function :: "string \<Rightarrow> (FunctionBase \<Rightarrow> FunctionBase) \<Rightarrow> Package \<Rightarrow> Package" where
  "map_function name g p =
     p\<lparr>pkg_functions := map (\<lambda>f. if fb_name f = name then g f else f) (pkg_functions p)\<rparr>"

definition map_node :: "nat \<Rightarrow> (Node \<Rightarrow> Node) \<Rightarrow> FunctionBase \<Rightarrow> FunctionBase" where
  "map_node i g f = f\<lparr>fb_nodes := map (\<lambda>n. if node_id n = i then g n else n) (fb_nodes f)\<rparr>"

definition HasAssignedName :: "Node \<Rightarrow> bool" where
  "HasAssignedName n = (node_name n \<noteq> None)"

definition AddNode :: "name_uniquer \<Rightarrow> string \<Rightarrow> Node \<Rightarrow> Package \<Rightarrow> nat \<times> Package" where
  "AddNode UniquifyNodeName fname node p =
     (pkg_next_id p,
      map_function fname
        (\<lambda>f. f\<lparr>fb_nodes := fb_nodes f @
               [node\<lparr>node_id := pkg_next_id p,
                     node_name := map_option (UniquifyNodeName f) (node_name node)\<rparr>]\<rparr>)
        (p\<lparr>pkg_next_id := Suc (pkg_next_id p)\<rparr>))"

definition CloneInNewFunction :: "name_uniquer \<Rightarrow> Node \<Rightarrow> nat list \<Rightarrow> string \<Rightarrow> Package
    \<Rightarrow> nat \<times> Package" where
  "CloneInNewFunction UniquifyNodeName node new_operands fname p =
     AddNode UniquifyNodeName fname (node\<lparr>node_operands := new_operands\<rparr>) p"

definition SetLoc :: "string \<Rightarrow> nat \<Rightarrow> nat list \<Rightarrow> Package \<Rightarrow> Package" where
  "SetLoc fname i loc p = map_function fname (map_node i (\<lambda>n. n\<lparr>node_loc := loc\<rparr>)) p"

definition SetName :: "name_uniquer \<Rightarrow> string \<Rightarrow> nat \<Rightarrow> string \<Rightarrow> Package \<Rightarrow> Package" where
  "SetName UniquifyNodeName fname i name p =
     map_function fname
       (\<lambda>f. map_node i (\<lambda>n. n\<lparr>node_name := Some (UniquifyNodeName f name)\<rparr>) f) p"

definition ClearName :: "string \<Rightarrow> nat \<Rightarrow> Package \<Rightarrow> Package" where
  "ClearName fname i p = map_function fname (map_node i (\<lambda>n. n\<lparr>node_name := None\<rparr>)) p"

definition replace_uses :: "nat \<Rightarrow> nat \<Rightarrow> FunctionBase \<Rightarrow> FunctionBase" where
  "replace_uses old new f =
     f\<lparr>fb_nodes :=
          map (\<lambda>n. n\<lparr>node_operands := map (\<lambda>o'. if o' = old then new else o') (node_operands n)\<rparr>)
              (fb_nodes f),
        fb_return := (if fb_return f = Some old then Some new else fb_return f)\<rparr>"

definition move_name :: "nat \<Rightarrow> nat \<Rightarrow> FunctionBase \<Rightarrow> FunctionBase" where
  "move_name old new f =
     (case (get_node f old, get_node f new) of
        (Some old_node, Some new_node) \<Rightarrow>
          if HasAssignedName old_node \<and> \<not> HasAssignedName new_node
          then map_node old (\<lambda>n. n\<lparr>node_name := None\<rparr>)
                 (map_node new (\<lambda>n. n\<lparr>node_name := node_name old_node\<rparr>) f)
          else f
      | _ \<Rightarrow> f)"

definition ReplaceUsesWith :: "string \<Rightarrow> nat \<Rightarrow> nat \<Rightarrow> Package \<Rightarrow> error + Package" where
  "ReplaceUsesWith fname old new p =
     Inr (map_function fname (\<lambda>f. move_name old new (replace_uses old new f)) p)"

definition RemoveNode :: "string \<Rightarrow> nat \<Rightarrow> Package \<Rightarrow> error + Package" where
  "RemoveNode fname i p =
     (case get_function p fname of
        None \<Rightarrow> Inl (InternalError ''no such function'')
      | Some f \<Rightarrow>
          if users_of f i \<noteq> [] \<or> fb_return f = Some i
          then Inl (InternalError ''cannot remove a node that is still used'')
          else Inr (map_function fname
                      (\<lambda>f. f\<lparr>fb_nodes := filter (\<lambda>n. node_id n \<noteq> i) (fb_nodes f)\<rparr>) p))"

text \<open>
  \<open>MakeNodeWithName<Cover>\<close> and \<open>MakeNodeWithName<Assert>\<close>: a new node of the given
  operation, with the token and the condition as its operands.
\<close>

definition MakeNodeWithName :: "name_uniquer \<Rightarrow> string \<Rightarrow> nat list \<Rightarrow> nat \<Rightarrow> nat \<Rightarrow> Op \<Rightarrow> string
    \<Rightarrow> Package \<Rightarrow> nat \<times> Package" where
  "MakeNodeWithName UniquifyNodeName fname loc token condition op' name p =
     AddNode UniquifyNodeName fname
       \<lparr>node_id = 0, node_op = op', node_operands = [token, condition],
        node_name = Some name, node_loc = loc\<rparr> p"

subsection \<open>GetInlinedNodeName\<close>

text \<open>
  The loop of \<open>GetInlinedNodeName\<close> runs over the pairs of the \<open>i\<close>-th parameter of the
  invoked function and the \<open>i\<close>-th operand of the invoke; its state is \<open>matching_param\<close>
  and \<open>derived_name\<close>.
\<close>

fun name_scan :: "Node \<Rightarrow> (Node \<times> Node) list \<Rightarrow> Node option \<times> string \<Rightarrow> Node option \<times> string"
where
  "name_scan node [] st = st"
| "name_scan node ((param, operand) # rest) (matching_param, derived_name) =
     (if HasAssignedName operand \<and>
         StartsWith (GetName node) (GetName param) \<and>
         (case matching_param of
            None \<Rightarrow> True
          | Some m \<Rightarrow> length (GetName m) < length (GetName param))
      then name_scan node rest
             (Some param, GetName operand @ drop (length (GetName param)) (GetName node))
      else name_scan node rest (matching_param, derived_name))"

definition GetInlinedNodeName :: "Node \<Rightarrow> (Node \<times> Node) list \<Rightarrow> string option" where
  "GetInlinedNodeName node params_and_operands =
     (if \<not> HasAssignedName node then None
      else (case name_scan node params_and_operands (None, []) of
              (None, derived_name) \<Rightarrow> None
            | (Some matching_param, derived_name) \<Rightarrow> Some derived_name))"

definition GetPrefixedLabel :: "string \<Rightarrow> string \<Rightarrow> string \<Rightarrow> nat \<Rightarrow> string" where
  "GetPrefixedLabel caller_name callee_name label inline_count =
     caller_name @ ''_'' @ dec_string inline_count @ ''_'' @ callee_name @ ''_'' @ label"

text \<open>
  \<open>IsInlineable\<close>: the invoked function has no foreign-function data. An invoke whose
  function is not in the package counts as inlineable; inlining it then fails.
\<close>

definition IsInlineable :: "Package \<Rightarrow> string \<Rightarrow> bool" where
  "IsInlineable p callee =
     (case get_function p callee of None \<Rightarrow> True | Some g \<Rightarrow> \<not> fb_foreign g)"

subsection \<open>InlineInvoke\<close>

type_synonym replacements = "(nat \<times> nat) list"

definition at_error :: error where
  "at_error = InternalError ''invoked_node_to_replacement.at: no such key''"

text \<open>
  The first loop of \<open>InlineInvoke\<close>, over \<open>TopoSort(invoked)\<close>. The state is the replacement
  map and the package.
\<close>

fun clone_nodes :: "name_uniquer \<Rightarrow> string \<Rightarrow> Node \<Rightarrow> FunctionBase \<Rightarrow> nat list
    \<Rightarrow> replacements \<times> Package \<Rightarrow> error + replacements \<times> Package" where
  "clone_nodes UniquifyNodeName caller invoke invoked [] st = Inr st"
| "clone_nodes UniquifyNodeName caller invoke invoked (nid # rest) (repl, p) =
     (if map_of repl nid \<noteq> None
      then clone_nodes UniquifyNodeName caller invoke invoked rest (repl, p)
      else
        (case get_node invoked nid of
           None \<Rightarrow> Inl (InternalError ''no such node'')
         | Some node \<Rightarrow>
             if (case node_op node of Invoke callee \<Rightarrow> IsInlineable p callee | _ \<Rightarrow> False)
             then Inl (InternalError
                    (''No invokes that are not FFI should remain in function to inline: ''
                       @ GetName node @ '': ''
                       @ (case node_op node of Invoke callee \<Rightarrow> callee | _ \<Rightarrow> [])))
             else
               (case those (map (map_of repl) (node_operands node)) of
                  None \<Rightarrow> Inl at_error
                | Some new_operands \<Rightarrow>
                    (case CloneInNewFunction UniquifyNodeName node new_operands caller p of
                       (new_node, p1) \<Rightarrow>
                         clone_nodes UniquifyNodeName caller invoke invoked rest
                           ((nid, new_node) # repl,
                            if node_loc node = [] then SetLoc caller new_node (node_loc invoke) p1
                            else p1)))))"

text \<open>
  The pairs that \<open>GetInlinedNodeName\<close> reads: the parameters of the invoked function and
  the operands of the invoke, as they are in the caller at that moment.
\<close>

definition params_and_operands :: "Package \<Rightarrow> string \<Rightarrow> Node \<Rightarrow> FunctionBase
    \<Rightarrow> (Node \<times> Node) list option" where
  "params_and_operands p caller invoke invoked =
     (case get_function p caller of
        None \<Rightarrow> None
      | Some f \<Rightarrow>
          (case (those (map (get_node invoked) (fb_params invoked)),
                 those (map (get_node f) (node_operands invoke))) of
             (Some ps, Some os) \<Rightarrow> Some (zip ps os)
           | _ \<Rightarrow> None))"

text \<open>
  The replacement of a cover or assert clone by one with the prefixed label. The clone is
  read through \<open>As<Cover>()\<close> or \<open>As<Assert>()\<close>, which check the class of the node.
\<close>

datatype labelled = IsCover | IsAssert

fun relabelled_op :: "labelled \<Rightarrow> Op \<Rightarrow> string \<Rightarrow> Op option" where
  "relabelled_op IsCover (Cover label) new_label = Some (Cover new_label)"
| "relabelled_op IsAssert (Assert message label) new_label = Some (Assert message (Some new_label))"
| "relabelled_op _ _ new_label = None"

definition relabel :: "name_uniquer \<Rightarrow> string \<Rightarrow> nat \<Rightarrow> labelled \<Rightarrow> string \<Rightarrow> Package
    \<Rightarrow> error + nat \<times> Package" where
  "relabel UniquifyNodeName caller c kind new_label p =
     (case get_function p caller of
        None \<Rightarrow> Inl (InternalError ''no such function'')
      | Some f \<Rightarrow>
          (case get_node f c of
             None \<Rightarrow> Inl (InternalError ''no such node'')
           | Some clone \<Rightarrow>
               (case relabelled_op kind (node_op clone) new_label of
                  None \<Rightarrow> Inl (InternalError ''node is not of the class asked for'')
                | Some new_op \<Rightarrow>
                    (case node_operands clone of
                       token # condition # _ \<Rightarrow>
                         (case MakeNodeWithName UniquifyNodeName caller (node_loc clone)
                                 token condition new_op (GetName clone) p of
                            (new_node, p1) \<Rightarrow>
                              (case ReplaceUsesWith caller c new_node p1 of
                                 Inl e \<Rightarrow> Inl e
                               | Inr p2 \<Rightarrow>
                                   (case RemoveNode caller c p2 of
                                      Inl e \<Rightarrow> Inl e
                                    | Inr p3 \<Rightarrow> Inr (new_node, p3))))
                     | _ \<Rightarrow> Inl (InternalError ''operand index out of range'')))))"

text \<open>The second loop of \<open>InlineInvoke\<close>, over the nodes of the invoked function.\<close>

fun rename_nodes :: "name_uniquer \<Rightarrow> string \<Rightarrow> Node \<Rightarrow> FunctionBase \<Rightarrow> nat \<Rightarrow> Node list
    \<Rightarrow> replacements \<times> Package \<Rightarrow> error + replacements \<times> Package" where
  "rename_nodes UniquifyNodeName caller invoke invoked inline_count [] st = Inr st"
| "rename_nodes UniquifyNodeName caller invoke invoked inline_count (node # rest) (repl, p) =
     (if node_op node = Param
      then rename_nodes UniquifyNodeName caller invoke invoked inline_count rest (repl, p)
      else if fb_return invoked = Some (node_id node) \<and> HasAssignedName invoke then
        (case map_of repl (node_id node) of
           None \<Rightarrow> Inl at_error
         | Some c \<Rightarrow>
             rename_nodes UniquifyNodeName caller invoke invoked inline_count rest
               (repl, ClearName caller c p))
      else
        (case params_and_operands p caller invoke invoked of
           None \<Rightarrow> Inl (InternalError ''operand index out of range'')
         | Some pairs \<Rightarrow>
             (case (case GetInlinedNodeName node pairs of
                      None \<Rightarrow> Inr p
                    | Some new_name \<Rightarrow>
                        (case map_of repl (node_id node) of
                           None \<Rightarrow> Inl at_error
                         | Some c \<Rightarrow> Inr (SetName UniquifyNodeName caller c new_name p))) of
                Inl e \<Rightarrow> Inl e
              | Inr p1 \<Rightarrow>
                  (case (case node_op node of
                           Cover label \<Rightarrow> Some (IsCover, label)
                         | Assert message (Some label) \<Rightarrow> Some (IsAssert, label)
                         | _ \<Rightarrow> None) of
                     None \<Rightarrow>
                       rename_nodes UniquifyNodeName caller invoke invoked inline_count rest
                         (repl, p1)
                   | Some (kind, label) \<Rightarrow>
                       (case map_of repl (node_id node) of
                          None \<Rightarrow> Inl at_error
                        | Some c \<Rightarrow>
                            (case relabel UniquifyNodeName caller c kind
                                    (GetPrefixedLabel caller (fb_name invoked) label inline_count) p1 of
                               Inl e \<Rightarrow> Inl e
                             | Inr (new_node, p2) \<Rightarrow>
                                 rename_nodes UniquifyNodeName caller invoke invoked inline_count
                                   rest ((node_id node, new_node) # repl, p2)))))))"

text \<open>
  \<open>InlineInvoke\<close>. The invoke is given by the name of its FunctionBase and its identifier.
  The verifier makes an invoke have one operand per parameter of the function it
  applies; the C++ reads past the end of a vector otherwise, the model fails.
\<close>

definition InlineInvoke :: "name_uniquer \<Rightarrow> Package \<Rightarrow> string \<Rightarrow> nat \<Rightarrow> nat \<Rightarrow> error + Package" where
  "InlineInvoke UniquifyNodeName p caller invoke_id inline_count =
     (case get_function p caller of
        None \<Rightarrow> Inl (InternalError ''no such function'')
      | Some f \<Rightarrow>
     (case get_node f invoke_id of
        None \<Rightarrow> Inl (InternalError ''no such node'')
      | Some invoke \<Rightarrow>
     (case node_op invoke of
        Invoke callee \<Rightarrow>
          (case get_function p callee of
             None \<Rightarrow> Inl (InternalError ''no such function'')
           | Some invoked \<Rightarrow>
               if length (fb_params invoked) \<noteq> length (node_operands invoke)
               then Inl (InternalError ''operand index out of range'')
               else
             (case TopoSort invoked of
                None \<Rightarrow> Inl (InternalError ''TopoSort does not return'')
              | Some order \<Rightarrow>
             (case clone_nodes UniquifyNodeName caller invoke invoked order
                     (rev (zip (fb_params invoked) (node_operands invoke)), p) of
                Inl e \<Rightarrow> Inl e
              | Inr st1 \<Rightarrow>
             (case rename_nodes UniquifyNodeName caller invoke invoked inline_count
                     (fb_nodes invoked) st1 of
                Inl e \<Rightarrow> Inl e
              | Inr (repl, p2) \<Rightarrow>
             (case fb_return invoked of
                None \<Rightarrow> Inl (InternalError ''no return value'')
              | Some r \<Rightarrow>
             (case map_of repl r of
                None \<Rightarrow> Inl at_error
              | Some replacement \<Rightarrow>
             (case ReplaceUsesWith caller invoke_id replacement p2 of
                Inl e \<Rightarrow> Inl e
              | Inr p3 \<Rightarrow> RemoveNode caller invoke_id p3)))))))
      | _ \<Rightarrow> Inl (InternalError ''not an invoke''))))"

subsection \<open>InliningPass::RunInternal\<close>

text \<open>
  The inner loop, over the copy of the nodes of a FunctionBase taken before the loop;
  the state is \<open>changed\<close>, \<open>inline_count\<close> and the package.
\<close>

fun inline_nodes :: "name_uniquer \<Rightarrow> string \<Rightarrow> nat list \<Rightarrow> bool \<times> nat \<times> Package
    \<Rightarrow> error + bool \<times> nat \<times> Package"
where
  "inline_nodes UniquifyNodeName fname [] st = Inr st"
| "inline_nodes UniquifyNodeName fname (nid # rest) (changed, inline_count, p) =
     (case get_function p fname of
        None \<Rightarrow> Inl (InternalError ''no such function'')
      | Some f \<Rightarrow>
          (case get_node f nid of
             None \<Rightarrow> Inl (InternalError ''no such node'')
           | Some node \<Rightarrow>
               (case node_op node of
                  Invoke callee \<Rightarrow>
                    if IsInlineable p callee then
                      (case InlineInvoke UniquifyNodeName p fname nid inline_count of
                         Inl e \<Rightarrow> Inl e
                       | Inr p' \<Rightarrow>
                           inline_nodes UniquifyNodeName fname rest (True, Suc inline_count, p'))
                    else inline_nodes UniquifyNodeName fname rest (changed, inline_count, p)
                | _ \<Rightarrow> inline_nodes UniquifyNodeName fname rest (changed, inline_count, p))))"

fun inline_functions :: "name_uniquer \<Rightarrow> string list \<Rightarrow> bool \<times> nat \<times> Package
    \<Rightarrow> error + bool \<times> nat \<times> Package"
where
  "inline_functions UniquifyNodeName [] st = Inr st"
| "inline_functions UniquifyNodeName (fname # rest) (changed, inline_count, p) =
     (case get_function p fname of
        None \<Rightarrow> Inl (InternalError ''no such function'')
      | Some f \<Rightarrow>
          (case inline_nodes UniquifyNodeName fname (node_ids f) (changed, inline_count, p) of
             Inl e \<Rightarrow> Inl e
           | Inr st' \<Rightarrow> inline_functions UniquifyNodeName rest st'))"

text \<open>
  \<open>FunctionsInPostOrder\<close> (xls/ir/call_graph.h) is not among the sources; the list it
  returns for the package is a parameter.
\<close>

definition RunInternal :: "name_uniquer \<Rightarrow> (Package \<Rightarrow> string list) \<Rightarrow> Package
    \<Rightarrow> error + bool \<times> Package" where
  "RunInternal UniquifyNodeName FunctionsInPostOrder p =
     (case inline_functions UniquifyNodeName (FunctionsInPostOrder p) (False, 0, p) of
        Inl e \<Rightarrow> Inl e
      | Inr (changed, inline_count, p') \<Rightarrow> Inr (changed, p'))"

subsection \<open>The name rule as the spec words it\<close>

text \<open>
  The spec (4.C, name rewriting): find the parameter \<open>P\<close> whose name is the longest prefix
  of the name of \<open>N\<close>; if there is one and the corresponding argument at the call site has
  an assigned name \<open>A\<close>, the new name is \<open>A\<close> followed by the rest of the name of \<open>N\<close>.
\<close>

fun longest_prefix_param :: "Node \<Rightarrow> (Node \<times> Node) list \<Rightarrow> (Node \<times> Node) option" where
  "longest_prefix_param node [] = None"
| "longest_prefix_param node ((param, operand) # rest) =
     (case longest_prefix_param node rest of
        None \<Rightarrow> if StartsWith (GetName node) (GetName param) then Some (param, operand) else None
      | Some (param', operand') \<Rightarrow>
          if StartsWith (GetName node) (GetName param) \<and>
             length (GetName param') \<le> length (GetName param)
          then Some (param, operand) else Some (param', operand'))"

definition spec_inlined_name :: "Node \<Rightarrow> (Node \<times> Node) list \<Rightarrow> string option" where
  "spec_inlined_name node pairs =
     (if \<not> HasAssignedName node then None
      else (case longest_prefix_param node pairs of
              None \<Rightarrow> None
            | Some (param, operand) \<Rightarrow>
                if HasAssignedName operand
                then Some (GetName operand @ drop (length (GetName param)) (GetName node))
                else None))"

subsection \<open>Example packages\<close>

definition unnamed_node :: "nat \<Rightarrow> Op \<Rightarrow> nat list \<Rightarrow> Node" where
  "unnamed_node i op' ops =
     \<lparr>node_id = i, node_op = op', node_operands = ops, node_name = None, node_loc = []\<rparr>"

text \<open>
  The example of the comment in \<open>InlineInvoke\<close>: the function has a parameter \<open>x\<close> and a
  node \<open>x_negated\<close>, the call site is \<open>invoke(foo, to_apply=f)\<close>.
\<close>

definition negate_callee :: FunctionBase where
  "negate_callee =
     \<lparr>fb_name = ''f'',
      fb_nodes = [mk_node 0 Param [] ''x'',
                  mk_node 1 (OtherOp ''neg'') [0] ''x_negated'',
                  unnamed_node 2 (OtherOp ''add'') [1, 1]],
      fb_params = [0], fb_return = Some 2, fb_foreign = False\<rparr>"

definition negate_package :: Package where
  "negate_package =
     \<lparr>pkg_functions =
        [negate_callee,
         \<lparr>fb_name = ''main'',
          fb_nodes = [mk_node 3 Param [] ''foo'',
                      unnamed_node 4 (Invoke ''f'') [3]],
          fb_params = [3], fb_return = Some 4, fb_foreign = False\<rparr>],
      pkg_next_id = 5\<rparr>"

text \<open>
  A function whose return value is a cover, called from a call site with an assigned
  name (\<open>r\<close>) and from one without.
\<close>

definition cover_callee :: FunctionBase where
  "cover_callee =
     \<lparr>fb_name = ''g'',
      fb_nodes = [mk_node 0 Param [] ''tkn'',
                  mk_node 1 Param [] ''x'',
                  mk_node 2 (Cover ''l'') [0, 1] ''c''],
      fb_params = [0, 1], fb_return = Some 2, fb_foreign = False\<rparr>"

definition cover_caller :: "string option \<Rightarrow> FunctionBase" where
  "cover_caller invoke_name =
     \<lparr>fb_name = ''f'',
      fb_nodes = [mk_node 3 Param [] ''t'',
                  mk_node 4 Param [] ''y'',
                  \<lparr>node_id = 5, node_op = Invoke ''g'', node_operands = [3, 4],
                   node_name = invoke_name, node_loc = []\<rparr>],
      fb_params = [3, 4], fb_return = Some 5, fb_foreign = False\<rparr>"

definition cover_package :: "string option \<Rightarrow> Package" where
  "cover_package invoke_name =
     \<lparr>pkg_functions = [cover_callee, cover_caller invoke_name], pkg_next_id = 6\<rparr>"

text \<open>
  A function with parameters \<open>foo\<close> and \<open>foo_bar\<close> and a node \<open>foo_bar_42\<close>, called with a
  named argument for \<open>foo\<close> and an unnamed literal for \<open>foo_bar\<close>.
\<close>

definition prefix_callee :: FunctionBase where
  "prefix_callee =
     \<lparr>fb_name = ''h'',
      fb_nodes = [mk_node 0 Param [] ''foo'',
                  mk_node 1 Param [] ''foo_bar'',
                  mk_node 2 (OtherOp ''neg'') [1] ''foo_bar_42'',
                  unnamed_node 3 (OtherOp ''add'') [0, 2]],
      fb_params = [0, 1], fb_return = Some 3, fb_foreign = False\<rparr>"

definition prefix_package :: Package where
  "prefix_package =
     \<lparr>pkg_functions =
        [prefix_callee,
         \<lparr>fb_name = ''k'',
          fb_nodes = [mk_node 4 Param [] ''a'',
                      unnamed_node 5 (OtherOp ''literal'') [],
                      unnamed_node 6 (Invoke ''h'') [4, 5]],
          fb_params = [4], fb_return = Some 6, fb_foreign = False\<rparr>],
      pkg_next_id = 7\<rparr>"

text \<open>
  A caller in which a foreign invoke uses the result of an inlineable invoke:
  \<open>a = invoke(y, to_apply=f); b = invoke(a, to_apply=ffi)\<close>.
\<close>

definition foreign_package :: Package where
  "foreign_package =
     \<lparr>pkg_functions =
        [\<lparr>fb_name = ''ffi'',
          fb_nodes = [mk_node 10 Param [] ''p''],
          fb_params = [10], fb_return = Some 10, fb_foreign = True\<rparr>,
         negate_callee,
         \<lparr>fb_name = ''top'',
          fb_nodes = [mk_node 3 Param [] ''y'',
                      mk_node 4 (Invoke ''f'') [3] ''a'',
                      mk_node 5 (Invoke ''ffi'') [4] ''b''],
          fb_params = [3], fb_return = Some 5, fb_foreign = False\<rparr>],
      pkg_next_id = 11\<rparr>"

definition listed_order :: "Package \<Rightarrow> string list" where
  "listed_order p = map fb_name (pkg_functions p)"

text \<open>
  A stand-in for the name uniquer, used to run the model on the examples: the name asked
  for when no node of the FunctionBase has it, or else the name followed by \<open>__\<close> and the
  first number from 1 that makes it free.
\<close>

definition demo_UniquifyNodeName :: name_uniquer where
  "demo_UniquifyNodeName f name =
     (case find (\<lambda>candidate. Some candidate \<notin> set (map node_name (fb_nodes f)))
             (name # map (\<lambda>k. name @ ''__'' @ dec_string k) [1..<length (fb_nodes f) + 2]) of
        None \<Rightarrow> name
      | Some free \<Rightarrow> free)"

subsection \<open>Vocabulary for the properties of the pass\<close>


definition signature :: "Package \<Rightarrow> (string \<times> bool) list" where
  "signature p = map (\<lambda>f. (fb_name f, fb_foreign f)) (pkg_functions p)"

text \<open>The identifiers and operations of the nodes of the function of a given name.\<close>

definition fentries :: "FunctionBase \<Rightarrow> (nat \<times> Op) list" where
  "fentries f = map (\<lambda>n. (node_id n, node_op n)) (fb_nodes f)"







subsection \<open>The result of the pass on the example with a foreign invoke\<close>




subsection \<open>Vocabulary and examples for the names and labels of inlined nodes\<close>

text \<open>
  The pairs that the loop of \<open>GetInlinedNodeName\<close> can select: the name of the parameter is
  a prefix of the name of the node and the operand has an assigned name.
\<close>

definition candidates :: "Node \<Rightarrow> (Node \<times> Node) list \<Rightarrow> (Node \<times> Node) list" where
  "candidates node pairs =
     filter (\<lambda>(param, operand).
               HasAssignedName operand \<and> StartsWith (GetName node) (GetName param)) pairs"

definition node_names :: "Package \<Rightarrow> string \<Rightarrow> string option list" where
  "node_names p fname =
     (case get_function p fname of None \<Rightarrow> [] | Some f \<Rightarrow> map node_name (fb_nodes f))"

definition labels :: "Package \<Rightarrow> string \<Rightarrow> string list" where
  "labels p fname =
     (case get_function p fname of
        None \<Rightarrow> []
      | Some f \<Rightarrow>
          List.map_filter
            (\<lambda>n. case node_op n of
                    Cover label \<Rightarrow> Some label
                  | Assert message label \<Rightarrow> label
                  | _ \<Rightarrow> None)
            (fb_nodes f))"

text \<open>The invariant of the spec (3): names, when assigned, are unique within a FunctionBase.\<close>

definition names_unique :: "Package \<Rightarrow> bool" where
  "names_unique p =
     list_all (\<lambda>f. distinct (List.map_filter node_name (fb_nodes f))) (pkg_functions p)"

definition after_pass :: "Package \<Rightarrow> Package option" where
  "after_pass p =
     (case RunInternal demo_UniquifyNodeName listed_order p of
        Inl e \<Rightarrow> None
      | Inr (changed, p') \<Rightarrow> Some p')"

text \<open>
  The function of the comment in \<open>InlineInvoke\<close> with \<open>x_negated\<close> as its return value,
  called from a call site with the assigned name \<open>r\<close>.
\<close>

definition named_return_callee :: FunctionBase where
  "named_return_callee =
     \<lparr>fb_name = ''f'',
      fb_nodes = [mk_node 0 Param [] ''x'',
                  mk_node 1 (OtherOp ''neg'') [0] ''x_negated''],
      fb_params = [0], fb_return = Some 1, fb_foreign = False\<rparr>"

definition named_return_package :: Package where
  "named_return_package =
     \<lparr>pkg_functions =
        [named_return_callee,
         \<lparr>fb_name = ''main'',
          fb_nodes = [mk_node 2 Param [] ''foo'',
                      mk_node 3 (Invoke ''f'') [2] ''r''],
          fb_params = [2], fb_return = Some 3, fb_foreign = False\<rparr>],
      pkg_next_id = 4\<rparr>"

text \<open>
  Two call sites of the function whose return value is a cover:
  \<open>invoke(t, y, to_apply=g)\<close> and \<open>invoke(<first>, y, to_apply=g)\<close>, with the given names.
\<close>

definition cover_twice_package :: "string option \<Rightarrow> string option \<Rightarrow> Package" where
  "cover_twice_package first_name second_name =
     \<lparr>pkg_functions =
        [cover_callee,
         \<lparr>fb_name = ''f'',
          fb_nodes = [mk_node 3 Param [] ''t'',
                      mk_node 4 Param [] ''y'',
                      \<lparr>node_id = 5, node_op = Invoke ''g'', node_operands = [3, 4],
                       node_name = first_name, node_loc = []\<rparr>,
                      \<lparr>node_id = 6, node_op = Invoke ''g'', node_operands = [5, 4],
                       node_name = second_name, node_loc = []\<rparr>],
          fb_params = [3, 4], fb_return = Some 6, fb_foreign = False\<rparr>],
      pkg_next_id = 7\<rparr>"

text \<open>
  The state of the loop of \<open>GetInlinedNodeName\<close> as a number: 0 when no parameter is
  selected, or else one more than the length of the name of the selected parameter.
\<close>

definition best :: "Node option \<Rightarrow> nat" where
  "best m = (case m of None \<Rightarrow> 0 | Some x \<Rightarrow> Suc (length (GetName x)))"

text \<open>
  The node \<open>foo_bar_42\<close> with the pairs of parameter and call-site argument at its call
  site, and the same pairs when the literal has the assigned name \<open>b\<close>.
\<close>

definition foo_bar_42 :: Node where
  "foo_bar_42 = mk_node 2 (OtherOp ''neg'') [1] ''foo_bar_42''"

definition prefix_pairs :: "(Node \<times> Node) list" where
  "prefix_pairs =
     [(mk_node 0 Param [] ''foo'', mk_node 4 Param [] ''a''),
      (mk_node 1 Param [] ''foo_bar'', unnamed_node 5 (OtherOp ''literal'') [])]"

definition prefix_pairs_named :: "(Node \<times> Node) list" where
  "prefix_pairs_named =
     [(mk_node 0 Param [] ''foo'', mk_node 4 Param [] ''a''),
      (mk_node 1 Param [] ''foo_bar'', mk_node 5 (OtherOp ''literal'') [] ''b'')]"

section \<open>Properties of the sample codec\<close>

lemma StrSplit_not_Nil: "StrSplit s d \<noteq> []"
  by (induction s) (auto split: list.splits)

lemma StrSplit_append_delim: "StrSplit (x @ d # y) d = StrSplit x d @ StrSplit y d"
  by (induction x) (auto split: list.splits simp: StrSplit_not_Nil)

lemma StrSplit_no_delim: "d \<notin> set l \<Longrightarrow> StrSplit l d = [l]"
  by (induction l) (auto split: list.splits)

lemma StrSplit_pieces: "p \<in> set (StrSplit s d) \<Longrightarrow> d \<notin> set p"
  by (induction s arbitrary: p) (auto split: list.splits if_splits)

lemma StrJoin_Cons: "ls \<noteq> [] \<Longrightarrow> StrJoin (l # ls) sep = l @ sep @ StrJoin ls sep"
  by (cases ls) auto

lemma StrSplit_StrJoin:
  "ls \<noteq> [] \<Longrightarrow> \<forall>l \<in> set ls. d \<notin> set l \<Longrightarrow> StrSplit (StrJoin ls [d]) d = ls"
proof (induction ls)
  case Nil
  then show ?case by simp
next
  case (Cons l ls)
  show ?case
  proof (cases "ls = []")
    case True
    with Cons.prems show ?thesis by (simp add: StrSplit_no_delim)
  next
    case False
    with Cons show ?thesis
      by (simp add: StrJoin_Cons StrSplit_append_delim StrSplit_no_delim)
  qed
qed

lemma StrJoin_StrSplit: "StrJoin (StrSplit s d) [d] = s"
proof (induction s)
  case Nil
  then show ?case by simp
next
  case (Cons c s)
  then show ?case
    by (cases "StrSplit s d"; cases "tl (StrSplit s d)") (auto simp: StrSplit_not_Nil)
qed

lemma StrJoin_lines: "ls \<noteq> [] \<Longrightarrow> StrJoin ls [d] @ [d] = concat (map (\<lambda>l. l @ [d]) ls)"
proof (induction ls)
  case Nil
  then show ?case by simp
next
  case (Cons l ls)
  then show ?case by (cases "ls = []") (simp_all add: StrJoin_Cons)
qed

lemma rstrip_Cons:
  "StripTrailingAsciiWhitespace (c # x) =
     (if \<not> ascii_isspace c \<or> \<not> list_all ascii_isspace x
      then c # StripTrailingAsciiWhitespace x else [])"
proof (cases "list_all ascii_isspace x")
  case True
  then have "dropWhile ascii_isspace (rev x @ [c]) = dropWhile ascii_isspace [c]"
    by (intro dropWhile_append2) (auto simp: list_all_iff)
  moreover from True have "dropWhile ascii_isspace (rev x) = []"
    by (auto simp: list_all_iff)
  ultimately show ?thesis using True by (auto simp: StripTrailingAsciiWhitespace_def)
next
  case False
  then obtain y where "y \<in> set (rev x)" "\<not> ascii_isspace y"
    by (auto simp: list_all_iff)
  then have "dropWhile ascii_isspace (rev x @ [c]) = dropWhile ascii_isspace (rev x) @ [c]"
    by (rule dropWhile_append1)
  with False show ?thesis by (simp add: StripTrailingAsciiWhitespace_def)
qed

lemma lstrip_rstrip_commute:
  "StripLeadingAsciiWhitespace (StripTrailingAsciiWhitespace x) =
     StripTrailingAsciiWhitespace (StripLeadingAsciiWhitespace x)"
proof (induction x)
  case Nil
  then show ?case
    by (simp add: StripLeadingAsciiWhitespace_def StripTrailingAsciiWhitespace_def)
next
  case (Cons c x)
  show ?case
  proof (cases "ascii_isspace c")
    case False
    then show ?thesis by (simp add: rstrip_Cons StripLeadingAsciiWhitespace_def)
  next
    case True
    show ?thesis
    proof (cases "list_all ascii_isspace x")
      case all: True
      then have "dropWhile ascii_isspace x = []" by (auto simp: list_all_iff)
      with True have l: "StripLeadingAsciiWhitespace (c # x) = []"
        by (simp add: StripLeadingAsciiWhitespace_def)
      from True all have r: "StripTrailingAsciiWhitespace (c # x) = []"
        by (simp add: rstrip_Cons)
      show ?thesis
        unfolding l r by (simp add: StripLeadingAsciiWhitespace_def StripTrailingAsciiWhitespace_def)
    next
      case False
      with True Cons show ?thesis
        by (simp add: rstrip_Cons StripLeadingAsciiWhitespace_def)
    qed
  qed
qed

lemma rstrip_idem:
  "StripTrailingAsciiWhitespace (StripTrailingAsciiWhitespace x) = StripTrailingAsciiWhitespace x"
  by (simp add: StripTrailingAsciiWhitespace_def)

lemma Strip_comment_line:
  "StripAsciiWhitespace (comment_line x) = ''//'' @ StripTrailingAsciiWhitespace (CHR '' '' # x)"
  by (simp add: comment_line_def StripAsciiWhitespace_def StripLeadingAsciiWhitespace_def
      rstrip_Cons ascii_isspace_def)

lemma config_line_contents:
  "comment_contents (comment_line l) = StripAsciiWhitespace l"
proof -
  have "comment_contents (comment_line l)
      = StripAsciiWhitespace (StripTrailingAsciiWhitespace (CHR '' '' # l))"
    by (simp add: comment_contents_def Strip_comment_line StripPrefix_def StartsWith_def)
  also have "\<dots> = StripTrailingAsciiWhitespace (StripLeadingAsciiWhitespace (CHR '' '' # l))"
    unfolding StripAsciiWhitespace_def lstrip_rstrip_commute rstrip_idem ..
  also have "\<dots> = StripAsciiWhitespace l"
    by (simp add: StripAsciiWhitespace_def StripLeadingAsciiWhitespace_def ascii_isspace_def)
  finally show ?thesis .
qed

lemma comment_line_stripped:
  "StripAsciiWhitespace (comment_line l) \<noteq> []"
  "StartsWith (StripAsciiWhitespace (comment_line l)) ''//''"
  by (simp_all add: Strip_comment_line StartsWith_def)

lemma dslx_lines_scan:
  "dslx_lines (foldl scan_line st ls) = dslx_lines st @ filter is_source_line ls"
  by (induction ls arbitrary: st) (auto simp: scan_line_def Let_def is_source_line_def)

lemma Deserialize_input_text:
  assumes "Deserialize ext text = Inr s'"
  shows "input_text s' = StrJoin (filter is_source_line (StrSplit text NL)) [NL]"
  using assms
  by (auto simp: Deserialize_def Let_def scan_lines_def dslx_lines_scan FromProto_def
      split: if_splits sum.splits prod.splits)


lemma StrJoin_source_lines:
  assumes "t = StrJoin (filter is_source_line ls) [NL]" and "t \<noteq> []"
    and "\<forall>l\<in>set ls. NL \<notin> set l"
  shows "\<forall>l\<in>set (StrSplit t NL). is_source_line l"
proof -
  let ?kept = "filter is_source_line ls"
  from assms(1,2) have ne: "?kept \<noteq> []" by auto
  from assms(3) have "\<forall>l\<in>set ?kept. NL \<notin> set l" by auto
  with ne have "StrSplit (StrJoin ?kept [NL]) NL = ?kept"
    by (rule StrSplit_StrJoin)
  with assms(1) show ?thesis by auto
qed

lemma add_channel_values_first:
  assumes "length batch = i"
    and "\<forall>v\<in>set vs. ext_ParseTypedValue ext (ext_ToArgString ext v) = Inr (p v)"
  shows "add_channel_values ext (map (ext_ToArgString ext) vs) i batch
           = Inr (batch @ map (\<lambda>v. [p v]) vs)"
  using assms
proof (induction vs arbitrary: i batch)
  case Nil
  then show ?case by simp
next
  case (Cons v vs)
  have "add_channel_values ext (map (ext_ToArgString ext) (v # vs)) i batch
      = add_channel_values ext (map (ext_ToArgString ext) vs) (Suc i) (batch @ [[p v]])"
    using Cons.prems by (auto simp: Let_def nth_append list_update_append)
  also have "\<dots> = Inr ((batch @ [[p v]]) @ map (\<lambda>v. [p v]) vs)"
    using Cons.prems by (intro Cons.IH) auto
  finally show ?case by simp
qed

lemma add_channel_values_later:
  assumes "i + length vs \<le> length batch"
    and "\<forall>v\<in>set vs. ext_ParseTypedValue ext (ext_ToArgString ext v) = Inr (p v)"
  shows "\<exists>batch'. add_channel_values ext (map (ext_ToArgString ext) vs) i batch = Inr batch' \<and>
           length batch' = length batch \<and>
           (\<forall>j<length batch. batch' ! j =
               (if i \<le> j \<and> j < i + length vs then batch ! j @ [p (vs ! (j - i))] else batch ! j))"
  using assms
proof (induction vs arbitrary: i batch)
  case Nil
  then show ?case by simp
next
  case (Cons v vs)
  let ?b1 = "batch[i := batch ! i @ [p v]]"
  have step: "add_channel_values ext (map (ext_ToArgString ext) (v # vs)) i batch
      = add_channel_values ext (map (ext_ToArgString ext) vs) (Suc i) ?b1"
    using Cons.prems by (simp add: Let_def)
  have "Suc i + length vs \<le> length ?b1" using Cons.prems by simp
  moreover have "\<forall>v\<in>set vs. ext_ParseTypedValue ext (ext_ToArgString ext v) = Inr (p v)"
    using Cons.prems by simp
  ultimately obtain batch' where
    r: "add_channel_values ext (map (ext_ToArgString ext) vs) (Suc i) ?b1 = Inr batch'"
    and l: "length batch' = length ?b1"
    and n: "\<forall>j<length ?b1. batch' ! j =
               (if Suc i \<le> j \<and> j < Suc i + length vs then ?b1 ! j @ [p (vs ! (j - Suc i))] else ?b1 ! j)"
    using Cons.IH [of "Suc i" ?b1] by blast
  have "batch' ! j =
      (if i \<le> j \<and> j < i + length (v # vs) then batch ! j @ [p ((v # vs) ! (j - i))] else batch ! j)"
    if "j < length batch" for j
  proof (cases "j = i")
    case True
    with n that show ?thesis by simp
  next
    case False
    with n that show ?thesis by (auto simp: nth_Cons' Suc_diff_Suc)
  qed
  with step r l show ?case by simp
qed

lemma read_channel_inputs_later:
  assumes "\<forall>row\<in>set batch. k + length names \<le> length row"
    and "\<forall>row\<in>set batch. \<forall>v\<in>set row. ext_ParseTypedValue ext (ext_ToArgString ext v) = Inr (p v)"
    and "channel_inputs_from ext batch k names = Some chans"
  shows "read_channel_inputs ext chans acc (map (\<lambda>row. map p (take k row)) batch)
           = Inr (acc @ names, map (\<lambda>row. map p (take (k + length names) row)) batch)"
  using assms
proof (induction names arbitrary: k acc chans)
  case Nil
  then show ?case by simp
next
  case (Cons name names)
  let ?vs = "map (\<lambda>args. args ! k) batch"
  let ?cols = "\<lambda>k. map (\<lambda>row. map p (take k row)) batch"
  have lens: "\<forall>row\<in>set batch. k < length row" using Cons.prems(1) by auto
  then have cv: "channel_values ext batch k = Some (map (ext_ToArgString ext) ?vs)"
    by (simp add: channel_values_def list_all_iff comp_def)
  with Cons.prems(3) obtain rest where
    rest: "channel_inputs_from ext batch (Suc k) names = Some rest"
    and chans: "chans = (name, map (ext_ToArgString ext) ?vs) # rest"
    by (auto split: option.splits)
  have pv: "\<forall>v\<in>set ?vs. ext_ParseTypedValue ext (ext_ToArgString ext v) = Inr (p v)"
    using Cons.prems(2) lens by auto
  have "0 + length ?vs \<le> length (?cols k)" by simp
  from add_channel_values_later [OF this pv] obtain batch' where
    r: "add_channel_values ext (map (ext_ToArgString ext) ?vs) 0 (?cols k) = Inr batch'"
    and l: "length batch' = length batch"
    and n: "\<forall>j<length batch. batch' ! j = ?cols k ! j @ [p (?vs ! j)]"
    by auto
  have "batch' = ?cols (Suc k)"
  proof (rule nth_equalityI)
    show "length batch' = length (?cols (Suc k))" using l by simp
  next
    fix j assume "j < length batch'"
    with l have j: "j < length batch" by simp
    with lens have "k < length (batch ! j)" by auto
    then have "take (Suc k) (batch ! j) = take k (batch ! j) @ [batch ! j ! k]"
      by (rule take_Suc_conv_app_nth)
    with n j show "batch' ! j = ?cols (Suc k) ! j" by simp
  qed
  with r have step: "add_channel_values ext (map (ext_ToArgString ext) ?vs) 0 (?cols k) = Inr (?cols (Suc k))"
    by simp
  have "read_channel_inputs ext rest (acc @ [name]) (?cols (Suc k))
          = Inr ((acc @ [name]) @ names, ?cols (Suc k + length names))"
    using Cons.prems(1,2) rest by (intro Cons.IH) auto
  with step chans show ?case by simp
qed

lemma read_channel_inputs_all:
  assumes rect: "\<forall>row\<in>set batch. length row = length names"
    and ne: "names = [] \<longrightarrow> batch = []"
    and pv: "\<forall>row\<in>set batch. \<forall>v\<in>set row. ext_ParseTypedValue ext (ext_ToArgString ext v) = Inr (p v)"
    and mk: "channel_inputs_from ext batch 0 names = Some chans"
  shows "read_channel_inputs ext chans [] [] = Inr (names, map (map p) batch)"
proof (cases names)
  case Nil
  with ne mk show ?thesis by simp
next
  case (Cons name rest_names)
  let ?vs = "map (\<lambda>args. args ! 0) batch"
  have lens: "\<forall>row\<in>set batch. 0 < length row" using rect Cons by auto
  then have cv: "channel_values ext batch 0 = Some (map (ext_ToArgString ext) ?vs)"
    by (simp add: channel_values_def list_all_iff comp_def)
  with mk Cons obtain rest where
    rest: "channel_inputs_from ext batch (Suc 0) rest_names = Some rest"
    and chans: "chans = (name, map (ext_ToArgString ext) ?vs) # rest"
    by (auto split: option.splits)
  have pv0: "\<forall>v\<in>set ?vs. ext_ParseTypedValue ext (ext_ToArgString ext v) = Inr (p v)"
    using pv lens by auto
  have cols1: "map (\<lambda>v. [p v]) ?vs = map (\<lambda>row. map p (take (Suc 0) row)) batch"
  proof -
    have "take (Suc 0) row = [row ! 0]" if "row \<in> set batch" for row
      using lens that by (cases row) auto
    then show ?thesis by simp
  qed
  have "add_channel_values ext (map (ext_ToArgString ext) ?vs) 0 []
                 = Inr ([] @ map (\<lambda>v. [p v]) ?vs)"
    by (rule add_channel_values_first [OF _ pv0]) simp
  then have first: "add_channel_values ext (map (ext_ToArgString ext) ?vs) 0 []
                 = Inr (map (\<lambda>row. map p (take (Suc 0) row)) batch)"
    unfolding cols1 by simp
  have full: "map (\<lambda>row. map p (take (Suc 0 + length rest_names) row)) batch = map (map p) batch"
    using rect Cons by simp
  have "read_channel_inputs ext rest ([] @ [name]) (map (\<lambda>row. map p (take (Suc 0) row)) batch)
          = Inr (([] @ [name]) @ rest_names,
                 map (\<lambda>row. map p (take (Suc 0 + length rest_names) row)) batch)"
    using rect Cons pv rest by (intro read_channel_inputs_later) auto
  then have later: "read_channel_inputs ext rest ([] @ [name]) (map (\<lambda>row. map p (take (Suc 0) row)) batch)
          = Inr (names, map (map p) batch)"
    unfolding full using Cons by simp
  have "read_channel_inputs ext chans [] []
          = read_channel_inputs ext rest ([] @ [name]) (map (\<lambda>row. map p (take (Suc 0) row)) batch)"
    unfolding chans by (simp only: read_channel_inputs.simps first sum.case)
  with later show ?thesis by simp
qed

lemma read_function_args_all:
  assumes "\<forall>row\<in>set batch. ext_ParseArgs ext (InterpValueListToString ext row) = Inr (q row)"
  shows "read_function_args ext (map (InterpValueListToString ext) batch) acc = Inr (acc @ map q batch)"
  using assms by (induction batch arbitrary: acc) auto


lemma scan_line_alt:
  "scan_line st line =
     (if StripAsciiWhitespace line = [] then st
      else if StartsWith (StripAsciiWhitespace line) ''//'' then
        (if comment_contents line = kStartConfig then st\<lparr>in_config := True\<rparr>
         else if comment_contents line = kEndConfig then st\<lparr>in_config := False\<rparr>
         else if in_config st then st\<lparr>config_lines := config_lines st @ [comment_contents line]\<rparr>
         else st)
      else st\<lparr>dslx_lines := dslx_lines st @ [line]\<rparr>)"
  by (simp add: scan_line_def Let_def comment_contents_def)

lemma scan_comment_line:
  "scan_line st (comment_line l) =
     (if StripAsciiWhitespace l = kStartConfig then st\<lparr>in_config := True\<rparr>
      else if StripAsciiWhitespace l = kEndConfig then st\<lparr>in_config := False\<rparr>
      else if in_config st then st\<lparr>config_lines := config_lines st @ [StripAsciiWhitespace l]\<rparr>
      else st)"
  by (simp add: scan_line_alt comment_line_stripped config_line_contents)

lemma Strip_markers:
  "StripAsciiWhitespace kStartConfig = kStartConfig"
  "StripAsciiWhitespace kEndConfig = kEndConfig"
  "kEndConfig \<noteq> kStartConfig"
  by (simp_all add: kStartConfig_def kEndConfig_def StripAsciiWhitespace_def
      StripLeadingAsciiWhitespace_def StripTrailingAsciiWhitespace_def ascii_isspace_def)

lemma scan_header_lines:
  assumes "\<forall>l\<in>set ls. StripAsciiWhitespace l \<noteq> kStartConfig \<and> StripAsciiWhitespace l \<noteq> kEndConfig"
  shows "foldl scan_line \<lparr>in_config = True, config_lines = cl, dslx_lines = dl\<rparr>
           (map comment_line ls)
         = \<lparr>in_config = True, config_lines = cl @ map StripAsciiWhitespace ls, dslx_lines = dl\<rparr>"
  using assms by (induction ls arbitrary: cl) (simp_all add: scan_comment_line)

lemma scan_source_lines:
  assumes "\<forall>l\<in>set ls. \<not> reopens_config l"
  shows "foldl scan_line \<lparr>in_config = False, config_lines = cl, dslx_lines = dl\<rparr> ls
         = \<lparr>in_config = False, config_lines = cl, dslx_lines = dl @ filter is_source_line ls\<rparr>"
  using assms
  by (induction ls arbitrary: dl) (auto simp: scan_line_alt reopens_config_def is_source_line_def)

lemma scan_blank: "scan_line st [] = st"
  by (simp add: scan_line_alt StripAsciiWhitespace_def StripLeadingAsciiWhitespace_def
      StripTrailingAsciiWhitespace_def)

lemma StrSplit_serialized:
  "StrSplit (StrJoin (header_lines ext config) [NL] @ [NL] @ src @ [NL]) NL
     = header_lines ext config @ StrSplit src NL @ [[]]"
proof -
  have "\<forall>l\<in>set (header_lines ext config). NL \<notin> set l"
    by (auto simp: header_lines_def comment_line_def kStartConfig_def kEndConfig_def
        dest: StrSplit_pieces)
  moreover have "header_lines ext config \<noteq> []" by (simp add: header_lines_def)
  ultimately have "StrSplit (StrJoin (header_lines ext config) [NL]) NL = header_lines ext config"
    by (intro StrSplit_StrJoin)
  moreover have "StrSplit (src @ [NL]) NL = StrSplit src NL @ [[]]"
    using StrSplit_append_delim [of src NL "[]"] by simp
  ultimately show ?thesis
    using StrSplit_append_delim [of "StrJoin (header_lines ext config) [NL]" NL "src @ [NL]"]
    by simp
qed

lemma scan_serialized:
  assumes "\<forall>l\<in>set (StrSplit (ext_DebugString ext config) NL).
             StripAsciiWhitespace l \<noteq> kStartConfig \<and> StripAsciiWhitespace l \<noteq> kEndConfig"
    and "\<forall>l\<in>set (StrSplit src NL). \<not> reopens_config l"
  shows "scan_lines (StrJoin (header_lines ext config) [NL] @ [NL] @ src @ [NL])
         = \<lparr>in_config = False,
            config_lines = map StripAsciiWhitespace (StrSplit (ext_DebugString ext config) NL),
            dslx_lines = filter is_source_line (StrSplit src NL)\<rparr>"
proof -
  have "scan_lines (StrJoin (header_lines ext config) [NL] @ [NL] @ src @ [NL])
      = foldl scan_line \<lparr>in_config = False, config_lines = [], dslx_lines = []\<rparr>
          (header_lines ext config @ StrSplit src NL @ [[]])"
    by (simp only: scan_lines_def StrSplit_serialized)
  also have "\<dots> = \<lparr>in_config = False,
            config_lines = map StripAsciiWhitespace (StrSplit (ext_DebugString ext config) NL),
            dslx_lines = filter is_source_line (StrSplit src NL)\<rparr>"
    by (simp add: header_lines_def scan_comment_line Strip_markers
          scan_header_lines [OF assms(1)] scan_source_lines [OF assms(2)] scan_blank)
  finally show ?thesis .
qed

lemma Serialize_text:
  assumes "MakeConfig ext s error_message = Some config"
  shows "Serialize ext s error_message
           = Some (StrJoin (header_lines ext config) [NL] @ [NL] @ input_text s @ [NL])"
  using assms by (simp add: Serialize_def)

lemma MakeConfig_fields:
  assumes "MakeConfig ext s error_message = Some config"
  shows "cfg_sample_options config = options s"
    and "IsFunctionSample (options s) \<Longrightarrow>
           cfg_inputs config = FunctionArgs (map (InterpValueListToString ext) (args_batch s))"
    and "\<not> IsFunctionSample (options s) \<Longrightarrow>
           IsProcSample (options s) \<and>
           (\<exists>chans. cfg_inputs config = ChannelInputs chans \<and>
              channel_inputs_from ext (args_batch s) 0 (ir_channel_names s) = Some chans)"
  using assms by (auto simp: MakeConfig_def split: if_splits option.splits)

subsection \<open>The layout of the serialized text\<close>

text \<open>
  C8 (as amended). Whenever \<open>Serialize\<close> has a result, it is: the line \<open>// BEGIN_CONFIG\<close>,
  each line of the printed config prefixed with \<open>// \<close>, the line \<open>// END_CONFIG\<close>, and
  then at once (no blank line in between) the raw source text and a final newline.
\<close>

theorem Serialize_layout:
  assumes "MakeConfig ext s error_message = Some config"
  shows "Serialize ext s error_message =
           Some (concat (map (\<lambda>l. l @ [NL])
                   ([''// BEGIN_CONFIG'']
                    @ map (\<lambda>l. ''// '' @ l) (StrSplit (ext_DebugString ext config) NL)
                    @ [''// END_CONFIG'']))
                 @ input_text s @ [NL])"
proof -
  have "header_lines ext config \<noteq> []" by (simp add: header_lines_def)
  then have "StrJoin (header_lines ext config) [NL] @ [NL]
               = concat (map (\<lambda>l. l @ [NL]) (header_lines ext config))"
    by (rule StrJoin_lines)
  moreover have "header_lines ext config =
      [''// BEGIN_CONFIG''] @ map (\<lambda>l. ''// '' @ l) (StrSplit (ext_DebugString ext config) NL)
      @ [''// END_CONFIG'']"
    by (simp add: header_lines_def comment_line_def kStartConfig_def kEndConfig_def fun_eq_iff)
  ultimately show ?thesis
    using Serialize_text [OF assms] by (metis append_assoc)
qed

theorem Serialize_layout_witness:
  "Serialize (demo_ext []) demo_function_sample None =
     Some (concat (map (\<lambda>l. l @ [NL])
             ([''// BEGIN_CONFIG'']
              @ map (\<lambda>l. ''// '' @ l)
                  (StrSplit (demo_DebugString (demo_config demo_function_sample)) NL)
              @ [''// END_CONFIG'']))
           @ input_text demo_function_sample @ [NL])"
proof -
  have "MakeConfig (demo_ext []) demo_function_sample None
          = Some (demo_config demo_function_sample)"
    by code_simp
  from Serialize_layout [OF this] show ?thesis by (simp add: demo_ext_def)
qed

text \<open>
  The claim as stated fails: the serialized example has no blank line after
  \<open>// END_CONFIG\<close>, with or without a final newline after the source text.
\<close>

theorem Serialize_blank_line_counterexample:
  "Serialize (demo_ext []) demo_function_sample None
     \<noteq> Some (spec_serialized
               (StrSplit (demo_DebugString (demo_config demo_function_sample)) NL)
               (input_text demo_function_sample))
   \<and> Serialize (demo_ext []) demo_function_sample None
     \<noteq> Some (spec_serialized
               (StrSplit (demo_DebugString (demo_config demo_function_sample)) NL)
               (input_text demo_function_sample) @ [NL])"
  by code_simp

lemma demo_function_serialized_lines:
  "map_option (\<lambda>text. StrSplit text NL) (Serialize (demo_ext []) demo_function_sample None) =
     Some [''// BEGIN_CONFIG'',
           ''// issue: DO NOT SUBMIT Insert link to GitHub issue here.'',
           ''// sample_options {'',
           ''//   sample_type: SAMPLE_TYPE_FUNCTION'',
           ''// }'',
           ''// inputs {'',
           ''//   args: bits[8]:0x1'',
           ''//   args: bits[8]:0x2a'',
           ''// }'',
           ''// '',
           ''// END_CONFIG'',
           ''// adds one'',
           ''fn main(x: u8) -> u8 {'',
           ''  x + u8:1'',
           ''}'',
           []]"
  by code_simp

subsection \<open>What Deserialize keeps of the source text\<close>

text \<open>
  C9. Whenever \<open>Deserialize\<close> succeeds on a text, the source text of the result is made
  of exactly the lines of the input that are neither blank nor, once stripped, begin
  with \<open>//\<close>, joined by newlines. So if the text is the serialization of a sample whose
  (non-empty) source text has a blank line or a \<open>//\<close> line, the source text of the
  result differs from the sample's.
\<close>

theorem Deserialize_drops_blank_and_comment_lines:
  assumes "Deserialize ext text = Inr s'"
  shows "input_text s' = StrJoin (filter is_source_line (StrSplit text NL)) [NL] \<and>
         (\<forall>s err. Serialize ext s err = Some text \<longrightarrow> input_text s \<noteq> [] \<longrightarrow>
            (\<exists>l\<in>set (StrSplit (input_text s) NL). \<not> is_source_line l) \<longrightarrow>
            input_text s' \<noteq> input_text s)"
proof -
  have itext: "input_text s' = StrJoin (filter is_source_line (StrSplit text NL)) [NL]"
    using assms by (rule Deserialize_input_text)
  have pieces: "\<forall>l\<in>set (StrSplit text NL). NL \<notin> set l"
    using StrSplit_pieces by blast
  have "input_text s' \<noteq> input_text s"
    if "input_text s \<noteq> []" and "\<exists>l\<in>set (StrSplit (input_text s) NL). \<not> is_source_line l"
    for s :: "'a Sample"
  proof
    assume eq: "input_text s' = input_text s"
    with itext that(1) have "\<forall>l\<in>set (StrSplit (input_text s) NL). is_source_line l"
      using StrJoin_source_lines [OF _ _ pieces] by metis
    with that(2) show False by blast
  qed
  with itext show ?thesis by blast
qed

lemma demo_function_roundtrip:
  "Deserialize (demo_ext [demo_config demo_function_sample])
     (the (Serialize (demo_ext [demo_config demo_function_sample]) demo_function_sample None))
   = Inr (demo_function_sample\<lparr>input_text :=
            ''fn main(x: u8) -> u8 {'' @ [NL] @ ''  x + u8:1'' @ [NL] @ ''}''\<rparr>)"
  by code_simp

theorem Deserialize_drops_blank_and_comment_lines_witness:
  "input_text (demo_function_sample\<lparr>input_text :=
       ''fn main(x: u8) -> u8 {'' @ [NL] @ ''  x + u8:1'' @ [NL] @ ''}''\<rparr>)
     = StrJoin (filter is_source_line
         (StrSplit (the (Serialize (demo_ext [demo_config demo_function_sample])
                           demo_function_sample None)) NL)) [NL]
   \<and> ''fn main(x: u8) -> u8 {'' @ [NL] @ ''  x + u8:1'' @ [NL] @ ''}''
     \<noteq> input_text demo_function_sample"
proof -
  let ?E = "demo_ext [demo_config demo_function_sample]"
  have ser: "Serialize ?E demo_function_sample None
               = Some (the (Serialize ?E demo_function_sample None))"
    by code_simp
  have ne: "input_text demo_function_sample \<noteq> []"
    by (simp add: demo_function_sample_def)
  have "\<not> is_source_line ''// adds one''"
    by code_simp
  moreover have "''// adds one'' \<in> set (StrSplit (input_text demo_function_sample) NL)"
    by code_simp
  ultimately have cl: "\<exists>l\<in>set (StrSplit (input_text demo_function_sample) NL). \<not> is_source_line l"
    by blast
  let ?s' = "demo_function_sample\<lparr>input_text :=
       ''fn main(x: u8) -> u8 {'' @ [NL] @ ''  x + u8:1'' @ [NL] @ ''}''\<rparr>"
  note th = Deserialize_drops_blank_and_comment_lines [OF demo_function_roundtrip]
  from th have a: "input_text ?s' = StrJoin (filter is_source_line
         (StrSplit (the (Serialize ?E demo_function_sample None)) NL)) [NL]"
    by (rule conjunct1)
  from th ser ne cl have "input_text ?s' \<noteq> input_text demo_function_sample"
    by blast
  then have b: "''fn main(x: u8) -> u8 {'' @ [NL] @ ''  x + u8:1'' @ [NL] @ ''}''
     \<noteq> input_text demo_function_sample"
    by simp
  from a b show ?thesis by (rule conjI)
qed

subsection \<open>Round trip\<close>

lemma ArgsBatchEqual_maps:
  assumes "\<forall>row\<in>set batch. args_equal ext (q row) row"
  shows "list_all2 (args_equal ext) (map q batch) batch"
  using assms by (induction batch) auto

text \<open>
  C7 (as amended). Let the serialization of a sample be defined. Suppose the printed
  config has no line whose stripped form is one of the two markers, the text-proto
  parser gives the config back from its printed lines (stripped), no line of the source
  text is a \<open>//\<close> comment reading \<open>BEGIN_CONFIG\<close>, each row of a function sample parses
  back to an \<open>Eq\<close>-equal row, and, for a proc sample, each row has one value per channel,
  each parsing back to an \<open>Eq\<close>-equal value, and the argument batch is empty when there
  is no channel. Then \<open>Deserialize\<close> succeeds on the serialized text; the options of the
  result are field-wise equal and its argument batch is element-wise \<open>Eq\<close>-equal to the
  sample's; and its source text is the sample's with every blank line and every line
  whose stripped form begins with \<open>//\<close> removed.
\<close>

theorem Deserialize_Serialize_roundtrip:
  assumes cfg: "MakeConfig ext s error_message = Some config"
    and ser: "Serialize ext s error_message = Some text"
    and markers: "\<forall>l\<in>set (StrSplit (ext_DebugString ext config) NL).
        StripAsciiWhitespace l \<noteq> kStartConfig \<and> StripAsciiWhitespace l \<noteq> kEndConfig"
    and parse: "ext_ParseTextProto ext
        (StrJoin (map StripAsciiWhitespace (StrSplit (ext_DebugString ext config) NL)) [NL])
          = Inr config"
    and src: "\<forall>l\<in>set (StrSplit (input_text s) NL). \<not> reopens_config l"
    and fargs: "IsFunctionSample (options s) \<Longrightarrow>
        \<forall>row\<in>set (args_batch s). \<exists>row'.
          ext_ParseArgs ext (InterpValueListToString ext row) = Inr row' \<and> args_equal ext row' row"
    and pargs: "IsProcSample (options s) \<Longrightarrow>
        (ir_channel_names s = [] \<longrightarrow> args_batch s = []) \<and>
        (\<forall>row\<in>set (args_batch s). length row = length (ir_channel_names s) \<and>
           (\<forall>v\<in>set row. \<exists>v'.
              ext_ParseTypedValue ext (ext_ToArgString ext v) = Inr v' \<and> ext_Eq ext v' v))"
  shows "\<exists>s'. Deserialize ext text = Inr s' \<and>
           input_text s' = StrJoin (filter is_source_line (StrSplit (input_text s) NL)) [NL] \<and>
           SampleOptions_eq (options s') (options s) \<and>
           ArgsBatchEqual ext s' s"
proof -
  have tdef: "text = StrJoin (header_lines ext config) [NL] @ [NL] @ input_text s @ [NL]"
    using Serialize_text [OF cfg] ser by simp
  have scan: "scan_lines text
      = \<lparr>in_config = False,
         config_lines = map StripAsciiWhitespace (StrSplit (ext_DebugString ext config) NL),
         dslx_lines = filter is_source_line (StrSplit (input_text s) NL)\<rparr>"
    unfolding tdef by (rule scan_serialized [OF markers src])
  have ne: "config_lines (scan_lines text) \<noteq> []"
    unfolding scan by (simp add: StrSplit_not_Nil)
  have opts: "cfg_sample_options config = options s"
    by (rule MakeConfig_fields(1) [OF cfg])
  show ?thesis
  proof (cases "IsFunctionSample (options s)")
    case True
    define q where "q row = (case ext_ParseArgs ext (InterpValueListToString ext row) of
                               Inr r \<Rightarrow> r | Inl _ \<Rightarrow> [])" for row
    have q: "\<forall>row\<in>set (args_batch s).
               ext_ParseArgs ext (InterpValueListToString ext row) = Inr (q row) \<and>
               args_equal ext (q row) row"
      using fargs [OF True] by (fastforce simp: q_def)
    have inputs: "cfg_inputs config = FunctionArgs (map (InterpValueListToString ext) (args_batch s))"
      by (rule MakeConfig_fields(2) [OF cfg True])
    have rd: "read_function_args ext (map (InterpValueListToString ext) (args_batch s)) []
                = Inr ([] @ map q (args_batch s))"
      using q by (intro read_function_args_all) blast
    have "Deserialize ext text
            = Inr \<lparr>input_text = StrJoin (filter is_source_line (StrSplit (input_text s) NL)) [NL],
                   options = options s, args_batch = map q (args_batch s),
                   ir_channel_names = []\<rparr>"
      using True ne parse rd
      by (simp add: Deserialize_def Let_def scan opts inputs FromProto_def IsFunctionSample_def)
    moreover have "list_all2 (args_equal ext) (map q (args_batch s)) (args_batch s)"
      using q by (intro ArgsBatchEqual_maps) blast
    ultimately show ?thesis
      by (simp add: SampleOptions_eq_def ArgsBatchEqual_def)
  next
    case False
    then have proc: "IsProcSample (options s)"
      using MakeConfig_fields(3) [OF cfg] by blast
    from False obtain chans where
      inputs: "cfg_inputs config = ChannelInputs chans"
      and chans: "channel_inputs_from ext (args_batch s) 0 (ir_channel_names s) = Some chans"
      using MakeConfig_fields(3) [OF cfg] by blast
    define p where "p v = (case ext_ParseTypedValue ext (ext_ToArgString ext v) of
                             Inr r \<Rightarrow> r | Inl _ \<Rightarrow> v)" for v
    have p: "\<forall>row\<in>set (args_batch s). \<forall>v\<in>set row.
               ext_ParseTypedValue ext (ext_ToArgString ext v) = Inr (p v) \<and> ext_Eq ext (p v) v"
      using pargs [OF proc] by (fastforce simp: p_def)
    have rd: "read_channel_inputs ext chans [] []
                = Inr (ir_channel_names s, map (map p) (args_batch s))"
      using pargs [OF proc] p chans by (intro read_channel_inputs_all) blast+
    have "Deserialize ext text
            = Inr \<lparr>input_text = StrJoin (filter is_source_line (StrSplit (input_text s) NL)) [NL],
                   options = options s, args_batch = map (map p) (args_batch s),
                   ir_channel_names = ir_channel_names s\<rparr>"
      using proc ne parse rd
      by (simp add: Deserialize_def Let_def scan opts inputs FromProto_def IsProcSample_def)
    moreover have "list_all2 (args_equal ext) (map (map p) (args_batch s)) (args_batch s)"
    proof (intro ArgsBatchEqual_maps ballI)
      fix row assume "row \<in> set (args_batch s)"
      with p have "\<forall>v\<in>set row. ext_Eq ext (p v) v" by blast
      then show "args_equal ext (map p row) row"
        by (induction row) (auto simp: args_equal_def)
    qed
    ultimately show ?thesis
      by (simp add: SampleOptions_eq_def ArgsBatchEqual_def)
  qed
qed

theorem Deserialize_Serialize_roundtrip_witness:
  "\<exists>s'. Deserialize (demo_ext [demo_config demo_proc_sample])
            (the (Serialize (demo_ext [demo_config demo_proc_sample]) demo_proc_sample None))
          = Inr s' \<and>
        input_text s'
          = StrJoin (filter is_source_line (StrSplit (input_text demo_proc_sample) NL)) [NL] \<and>
        SampleOptions_eq (options s') (options demo_proc_sample) \<and>
        ArgsBatchEqual (demo_ext [demo_config demo_proc_sample]) s' demo_proc_sample"
proof -
  let ?E = "demo_ext [demo_config demo_proc_sample]"
  let ?c = "demo_config demo_proc_sample"
  have cfg: "MakeConfig ?E demo_proc_sample None = Some ?c"
    by code_simp
  have ser: "Serialize ?E demo_proc_sample None
               = Some (the (Serialize ?E demo_proc_sample None))"
    by code_simp
  have markers: "\<forall>l\<in>set (StrSplit (ext_DebugString ?E ?c) NL).
        StripAsciiWhitespace l \<noteq> kStartConfig \<and> StripAsciiWhitespace l \<noteq> kEndConfig"
    by code_simp
  have parse: "ext_ParseTextProto ?E
        (StrJoin (map StripAsciiWhitespace (StrSplit (ext_DebugString ?E ?c) NL)) [NL]) = Inr ?c"
    by code_simp
  have src: "\<forall>l\<in>set (StrSplit (input_text demo_proc_sample) NL). \<not> reopens_config l"
    by code_simp
  have not_fn: "\<not> IsFunctionSample (options demo_proc_sample)"
    by code_simp
  have rect: "ir_channel_names demo_proc_sample \<noteq> [] \<and>
      (\<forall>row\<in>set (args_batch demo_proc_sample). length row = length (ir_channel_names demo_proc_sample))"
    by code_simp
  have pargs: "(ir_channel_names demo_proc_sample = [] \<longrightarrow> args_batch demo_proc_sample = []) \<and>
        (\<forall>row\<in>set (args_batch demo_proc_sample).
           length row = length (ir_channel_names demo_proc_sample) \<and>
           (\<forall>v\<in>set row. \<exists>v'.
              ext_ParseTypedValue ?E (ext_ToArgString ?E v) = Inr v' \<and> ext_Eq ?E v' v))"
    using rect by (simp add: demo_ext_def)
  show ?thesis
    using not_fn pargs
    by (intro Deserialize_Serialize_roundtrip [OF cfg ser markers parse src]) simp_all
qed

text \<open>
  The claim as stated fails on the function sample whose source text starts with a
  comment line: \<open>Deserialize\<close> succeeds on its serialization, but the comment line is
  gone from the result, which is more than a change of whitespace at blank lines.
\<close>

theorem roundtrip_comment_line_counterexample:
  "Deserialize (demo_ext [demo_config demo_function_sample])
     (the (Serialize (demo_ext [demo_config demo_function_sample]) demo_function_sample None))
   = Inr (demo_function_sample\<lparr>input_text :=
            ''fn main(x: u8) -> u8 {'' @ [NL] @ ''  x + u8:1'' @ [NL] @ ''}''\<rparr>)
   \<and> nonblank_lines (''fn main(x: u8) -> u8 {'' @ [NL] @ ''  x + u8:1'' @ [NL] @ ''}'')
       \<noteq> nonblank_lines (input_text demo_function_sample)
   \<and> \<not> Sample_eq (demo_ext [demo_config demo_function_sample])
         (demo_function_sample\<lparr>input_text :=
            ''fn main(x: u8) -> u8 {'' @ [NL] @ ''  x + u8:1'' @ [NL] @ ''}''\<rparr>)
         demo_function_sample"
  by code_simp

text \<open>
  The condition on a proc sample without channels is needed: the rows of a proc sample
  are written channel by channel, so with no channel nothing is written, and a batch of
  one empty row comes back as the empty batch.
\<close>

lemma roundtrip_no_channel_example:
  "Deserialize (demo_ext [demo_config demo_no_channel_sample])
     (the (Serialize (demo_ext [demo_config demo_no_channel_sample]) demo_no_channel_sample None))
   = Inr (demo_no_channel_sample\<lparr>args_batch := []\<rparr>)
   \<and> \<not> ArgsBatchEqual (demo_ext [demo_config demo_no_channel_sample])
         (demo_no_channel_sample\<lparr>args_batch := []\<rparr>) demo_no_channel_sample"
  by code_simp

section \<open>Properties of the type-mismatch formatter\<close>

lemma same_shape_Start:
  "same_shape lhs rhs \<Longrightarrow> NoteAggregateStart lhs rhs cb = Inl e
     \<Longrightarrow> e = UnimplementedError ''Cannot print diffs of function types.''"
  by (cases lhs; cases rhs) auto

lemma same_shape_End:
  "same_shape lhs rhs \<Longrightarrow> NoteAggregateEnd lhs rhs cb = Inl e
     \<Longrightarrow> e = UnimplementedError ''Cannot print diffs of function types.''"
  by (cases lhs; cases rhs) auto

lemma ZipTypes_aggregate:
  "same_shape lhs rhs \<Longrightarrow>
     ZipTypes ToString lhs rhs p cb = zip_aggregate ToString lhs (children lhs) rhs p cb"
  by (cases lhs) auto

lemma zip_errors:
  "(ZipTypes ToString lhs rhs p cb = Inl e
      \<longrightarrow> e = UnimplementedError ''Cannot print diffs of function types.'')"
  "(zip_children ToString lhs0 ls rs index cb' = Inl e
      \<longrightarrow> e = UnimplementedError ''Cannot print diffs of function types.'')"
  "(zip_aggregate ToString lhs1 lhs_children rhs1 p1 cb1 = Inl e
      \<longrightarrow> e = UnimplementedError ''Cannot print diffs of function types.'')"
proof (induction ToString lhs rhs p cb and ToString lhs0 ls rs index cb'
         and ToString lhs1 lhs_children rhs1 p1 cb1
       arbitrary: e and e and e
       rule: ZipTypes_zip_children_zip_aggregate.induct)
  case (1 ToString w rhs lhs_parent cb)
  then show ?case by (simp add: NoteMatchedLeafType_def NoteTypeMismatch_def)
next
  case (8 ToString lhs lhs_children rhs lhs_parent cb)
  show ?case
  proof (cases "same_shape lhs rhs")
    case False
    then show ?thesis by (simp add: NoteTypeMismatch_def)
  next
    case True
    show ?thesis
    proof (cases "NoteAggregateStart lhs rhs cb")
      case (Inl e')
      with True show ?thesis using same_shape_Start by auto
    next
      case (Inr cb1)
      show ?thesis
      proof (cases "zip_children ToString lhs lhs_children (children rhs) 0 cb1")
        case (Inl e')
        with True Inr 8 show ?thesis by simp
      next
        case inr2: (Inr cb2)
        with True Inr show ?thesis using same_shape_End by auto
      qed
    qed
  qed
next
  case (9 ToString lhs l ls r rs index cb)
  show ?case
  proof (cases "ZipTypes ToString l r (Some (lhs, index)) cb")
    case (Inl e')
    with 9 show ?thesis by simp
  next
    case (Inr cb1)
    with 9 show ?thesis by simp
  qed
qed (simp_all del: zip_aggregate.simps)

lemma zip_children_error:
  assumes "i < length ls" and "i < length rs"
    and "\<And>p cb. ZipTypes ToString (ls ! i) (rs ! i) p cb
                    = Inl (UnimplementedError ''Cannot print diffs of function types.'')"
  shows "zip_children ToString lhs ls rs index cb
           = Inl (UnimplementedError ''Cannot print diffs of function types.'')"
  using assms
proof (induction ls arbitrary: rs i index cb)
  case Nil
  then show ?case by simp
next
  case (Cons l ls)
  then obtain r rs' where rs: "rs = r # rs'" by (cases rs) auto
  show ?case
  proof (cases i)
    case 0
    with Cons.prems rs show ?thesis by simp
  next
    case (Suc j)
    show ?thesis
    proof (cases "ZipTypes ToString l r (Some (lhs, index)) cb")
      case (Inl e)
      with zip_errors(1) rs show ?thesis by auto
    next
      case (Inr cb1)
      have "zip_children ToString lhs ls rs' (Suc index) cb1
              = Inl (UnimplementedError ''Cannot print diffs of function types.'')"
        using Cons.prems Suc rs by (intro Cons.IH [of j]) auto
      with Inr rs show ?thesis by simp
    qed
  qed
qed

lemma reaches_function_pair_error:
  assumes "reaches_function_pair lhs rhs"
  shows "ZipTypes ToString lhs rhs p cb
           = Inl (UnimplementedError ''Cannot print diffs of function types.'')"
  using assms
proof (induction arbitrary: p cb rule: reaches_function_pair.induct)
  case (here lp lr rp rr)
  then show ?case by simp
next
  case (inside lhs rhs i)
  show ?case
  proof (cases "NoteAggregateStart lhs rhs cb")
    case (Inl e)
    with inside.hyps(1) same_shape_Start have "e = UnimplementedError ''Cannot print diffs of function types.''"
      by blast
    with Inl inside.hyps(1) show ?thesis by (simp add: ZipTypes_aggregate)
  next
    case (Inr cb1)
    have "zip_children ToString lhs (children lhs) (children rhs) 0 cb1
            = Inl (UnimplementedError ''Cannot print diffs of function types.'')"
      using inside.hyps(2,3) inside.IH by (rule zip_children_error)
    with Inr inside.hyps(1) show ?thesis by (simp add: ZipTypes_aggregate)
  qed
qed

text \<open>
  C10. For every pair of types whose lock-step walk reaches a pair of function types,
  \<open>FormatTypeMismatch\<close> returns an Unimplemented error whose message begins
  ``Cannot print diffs of function types'', and so no formatted string.
\<close>

theorem FormatTypeMismatch_function_types:
  assumes "reaches_function_pair lhs rhs"
  shows "\<exists>msg. FormatTypeMismatch ToString lhs rhs = Inl (UnimplementedError msg) \<and>
           StartsWith msg ''Cannot print diffs of function types''"
proof -
  have "FormatTypeMismatch ToString lhs rhs
          = Inl (UnimplementedError ''Cannot print diffs of function types.'')"
    using reaches_function_pair_error [OF assms]
    by (simp add: FormatTypeMismatch_def)
  moreover have "StartsWith ''Cannot print diffs of function types.''
                   ''Cannot print diffs of function types''"
    by (simp add: StartsWith_def)
  ultimately show ?thesis by blast
qed

theorem FormatTypeMismatch_function_types_witness:
  "\<exists>msg. FormatTypeMismatch demo_ToString
            (TupleType [BitsType 8, FunctionType [BitsType 8] (BitsType 8)])
            (TupleType [BitsType 8, FunctionType [BitsType 16] (BitsType 8)])
          = Inl (UnimplementedError msg) \<and>
        StartsWith msg ''Cannot print diffs of function types''"
proof -
  have f: "reaches_function_pair (FunctionType [BitsType 8] (BitsType 8))
          (FunctionType [BitsType 16] (BitsType 8))"
    by (rule reaches_function_pair.here)
  have "reaches_function_pair
          (TupleType [BitsType 8, FunctionType [BitsType 8] (BitsType 8)])
          (TupleType [BitsType 8, FunctionType [BitsType 16] (BitsType 8)])"
    by (rule reaches_function_pair.inside [where i = "Suc 0"]) (simp_all add: f)
  then show ?thesis by (rule FormatTypeMismatch_function_types)
qed

text \<open>
  Function types with different numbers of parameters, at the top and inside a tuple.
\<close>

lemma FormatTypeMismatch_function_arity_example:
  "FormatTypeMismatch demo_ToString
     (FunctionType [BitsType 8] (BitsType 1)) (FunctionType [] (BitsType 1))
   = Inl (UnimplementedError ''Cannot print diffs of function types.'') \<and>
   FormatTypeMismatch demo_ToString
     (TupleType [BitsType 8, FunctionType [BitsType 8] (BitsType 1)])
     (TupleType [BitsType 8, FunctionType [] (BitsType 1)])
   = Inl (UnimplementedError ''Cannot print diffs of function types.'')"
  by code_simp

lemma FormatTypeMismatch_tuple_example:
  "FormatTypeMismatch demo_ToString
     (TupleType [BitsType 8, BitsType 8]) (TupleType [BitsType 8, BitsType 16])
   = Inr (StrJoin
       [kAnsiReset @ ''Mismatched elements '' @ kAnsiBoldOn @ ''within'' @ kAnsiBoldOff @ '' type:'',
        ''   uN[8]'',
        ''vs uN[16]'',
        kAnsiBoldOn @ ''Overall'' @ kAnsiBoldOff @ '' type mismatch:'',
        kAnsiReset @ ''   (uN[8], '' @ kAnsiRed @ ''uN[8]'' @ kAnsiReset @ '')'',
        ''vs (uN[8], '' @ kAnsiRed @ ''uN[16]'' @ kAnsiReset @ '')''] [NL])"
  by code_simp

section \<open>Properties of the topological sort\<close>

subsection \<open>Basic facts about nodes, operands and users\<close>

lemma get_node_distinct:
  assumes "distinct (node_ids f)" and "x \<in> set (fb_nodes f)"
  shows "get_node f (node_id x) = Some x"
proof -
  have "distinct (map node_id xs) \<Longrightarrow> x \<in> set xs
          \<Longrightarrow> find (\<lambda>y. node_id y = node_id x) xs = Some x" for xs
    by (induction xs) (auto simp: image_iff)
  with assms show ?thesis by (simp add: get_node_def node_ids_def)
qed

lemma operands_of_node:
  assumes "distinct (node_ids f)" and "x \<in> set (fb_nodes f)"
  shows "operands_of f (node_id x) = node_operands x"
  using get_node_distinct [OF assms] by (simp add: operands_of_def)

lemma operands_of_in_nodes:
  assumes "well_formed f" and "n \<in> set (node_ids f)" and "o' \<in> set (operands_of f n)"
  shows "o' \<in> set (node_ids f)" and "n \<in> set (users_of f o')"
proof -
  from assms(2) obtain x where x: "x \<in> set (fb_nodes f)" "node_id x = n"
    by (auto simp: node_ids_def)
  with assms(1) have ops: "operands_of f n = node_operands x"
    using operands_of_node by (auto simp: well_formed_def)
  with assms(1,3) x show "o' \<in> set (node_ids f)"
    by (auto simp: well_formed_def)
  from ops assms(3) x show "n \<in> set (users_of f o')"
    by (auto simp: users_of_def)
qed

lemma users_of_in_nodes:
  assumes "well_formed f" and "u \<in> set (users_of f n)"
  shows "u \<in> set (node_ids f)" and "n \<in> set (operands_of f u)"
proof -
  from assms(2) obtain x where x: "x \<in> set (fb_nodes f)" "node_id x = u"
    "n \<in> set (node_operands x)"
    by (auto simp: users_of_def)
  then show "u \<in> set (node_ids f)" by (auto simp: node_ids_def)
  from assms(1) x have "operands_of f u = node_operands x"
    using operands_of_node by (auto simp: well_formed_def)
  with x show "n \<in> set (operands_of f u)" by simp
qed

lemma users_edge:
  assumes "well_formed f" and "u \<in> set (users_of f n)"
  shows "(n, u) \<in> set (operand_edges f)"
  using assms(2) by (auto simp: users_of_def operand_edges_def)

lemma users_before_snoc:
  assumes "users_before f ordered" and "set (users_of f r) \<subseteq> set ordered"
  shows "users_before f (ordered @ [r])"
  unfolding users_before_def
proof (intro allI impI)
  fix k assume k: "k < length (ordered @ [r])"
  show "set (users_of f ((ordered @ [r]) ! k)) \<subseteq> set (take k (ordered @ [r]))"
  proof (cases "k < length ordered")
    case True
    with assms(1) show ?thesis by (auto simp: users_before_def nth_append)
  next
    case False
    with k have "k = length ordered" by simp
    with assms(2) show ?thesis by simp
  qed
qed

lemma users_before_set:
  assumes "users_before f ordered" and "n \<in> set ordered"
  shows "set (users_of f n) \<subseteq> set ordered"
proof -
  from assms(2) obtain k where "k < length ordered" "ordered ! k = n"
    by (auto simp: in_set_conv_nth)
  with assms(1) have "set (users_of f n) \<subseteq> set (take k ordered)"
    by (auto simp: users_before_def)
  then show ?thesis using set_take_subset by fast
qed

lemma loop_inv_init:
  assumes "well_formed f"
  shows "loop_inv f (seed_ready f) []"
proof -
  have d: "distinct (node_ids f)" using assms by (simp add: well_formed_def)
  have "distinct (seed_ready f)"
    using d by (auto simp: seed_ready_def split: option.splits)
  moreover have "set (seed_ready f) \<subseteq> set (node_ids f)"
    using assms by (auto simp: seed_ready_def well_formed_def split: option.splits if_splits)
  moreover have "\<forall>n\<in>set (seed_ready f). set (users_of f n) \<subseteq> {}"
    by (auto simp: seed_ready_def split: option.splits if_splits)
  moreover have "\<forall>n\<in>set (node_ids f). set (users_of f n) \<subseteq> {} \<longrightarrow> n \<in> set (seed_ready f)"
    by (auto simp: seed_ready_def split: option.splits)
  ultimately show ?thesis by (simp add: loop_inv_def users_before_def)
qed

lemma loop_inv_step:
  assumes wf: "well_formed f" and inv: "loop_inv f (r # rest) ordered"
  shows "loop_inv f (rest @ newly_ready f (ordered @ [r]) r) (ordered @ [r])"
proof -
  let ?new = "newly_ready f (ordered @ [r]) r"
  from inv have dist: "distinct (ordered @ r # rest)"
    and sub: "set (ordered @ r # rest) \<subseteq> set (node_ids f)"
    and rdy: "\<forall>n\<in>set (r # rest). set (users_of f n) \<subseteq> set ordered"
    and ub: "users_before f ordered"
    and compl: "\<forall>n\<in>set (node_ids f). set (users_of f n) \<subseteq> set ordered
                  \<longrightarrow> n \<in> set (ordered @ r # rest)"
    by (simp_all add: loop_inv_def)
  have rV: "r \<in> set (node_ids f)" using sub by simp
  have new_ops: "set ?new \<subseteq> set (operands_of f r)"
    by (auto simp: newly_ready_def)
  have new_users: "\<forall>n\<in>set ?new. set (users_of f n) \<subseteq> set (ordered @ [r])"
    by (auto simp: newly_ready_def all_users_scheduled_def list_all_iff)
  have fresh: "n \<notin> set (ordered @ r # rest)" if "n \<in> set ?new" for n
  proof
    assume old: "n \<in> set (ordered @ r # rest)"
    from that new_ops have "n \<in> set (operands_of f r)" by blast
    with wf rV have ru: "r \<in> set (users_of f n)" by (rule operands_of_in_nodes(2))
    have "set (users_of f n) \<subseteq> set ordered"
    proof (cases "n \<in> set ordered")
      case True
      with ub show ?thesis by (rule users_before_set)
    next
      case False
      with old rdy show ?thesis by auto
    qed
    with ru have "r \<in> set ordered" by blast
    with dist show False by simp
  qed
  have "distinct ?new" by (simp add: newly_ready_def)
  with dist fresh have 1: "distinct ((ordered @ [r]) @ rest @ ?new)" by auto
  have "set ?new \<subseteq> set (node_ids f)"
    using new_ops operands_of_in_nodes(1) [OF wf rV] by blast
  with sub have 2: "set ((ordered @ [r]) @ rest @ ?new) \<subseteq> set (node_ids f)" by auto
  have 3: "\<forall>n\<in>set (rest @ ?new). set (users_of f n) \<subseteq> set (ordered @ [r])"
    using rdy new_users by auto
  have 4: "users_before f (ordered @ [r])"
    using ub rdy by (intro users_before_snoc) auto
  have 5: "\<forall>n\<in>set (node_ids f). set (users_of f n) \<subseteq> set (ordered @ [r])
              \<longrightarrow> n \<in> set ((ordered @ [r]) @ rest @ ?new)"
  proof (intro ballI impI)
    fix n assume n: "n \<in> set (node_ids f)" and u: "set (users_of f n) \<subseteq> set (ordered @ [r])"
    show "n \<in> set ((ordered @ [r]) @ rest @ ?new)"
    proof (cases "set (users_of f n) \<subseteq> set ordered")
      case True
      with compl n show ?thesis by auto
    next
      case False
      with u have "r \<in> set (users_of f n)" by auto
      with wf have "n \<in> set (operands_of f r)" by (rule users_of_in_nodes(2))
      with u have "n \<in> set ?new"
        by (auto simp: newly_ready_def all_users_scheduled_def list_all_iff)
      then show ?thesis by simp
    qed
  qed
  from 1 2 3 4 5 show ?thesis unfolding loop_inv_def by blast
qed

lemma topo_loop_terminates:
  assumes wf: "well_formed f" and inv: "loop_inv f ready ordered"
  shows "\<exists>res. topo_loop f ready ordered = Some res \<and> loop_inv f [] res"
  using inv
proof (induction "length (node_ids f) - length ordered" arbitrary: ready ordered rule: less_induct)
  case less
  show ?case
  proof (cases ready)
    case Nil
    with less.prems show ?thesis by (subst topo_loop.simps) simp
  next
    case (Cons r rest)
    from less.prems Cons have "distinct (ordered @ r # rest)"
      and "set (ordered @ r # rest) \<subseteq> set (node_ids f)"
      by (simp_all add: loop_inv_def)
    then have "length (ordered @ r # rest) \<le> length (node_ids f)"
      by (metis card_mono distinct_card List.finite_set card_length le_trans)
    then have dec: "length (node_ids f) - length (ordered @ [r]) < length (node_ids f) - length ordered"
      by simp
    have "loop_inv f (rest @ newly_ready f (ordered @ [r]) r) (ordered @ [r])"
      using less.prems unfolding Cons by (rule loop_inv_step [OF wf])
    from less.hyps [OF dec this] Cons show ?thesis
      by (subst topo_loop.simps) simp
  qed
qed


lemma all_nodes_ordered:
  assumes dag: "DAG_invariant f" and inv: "loop_inv f [] res"
  shows "set res = set (node_ids f)"
proof (rule ccontr)
  assume ne: "set res \<noteq> set (node_ids f)"
  from dag have wf: "well_formed f" and ac: "acyclic (set (operand_edges f))"
    by (simp_all add: DAG_invariant_def)
  from inv have sub: "set res \<subseteq> set (node_ids f)"
    and compl: "\<forall>n\<in>set (node_ids f). set (users_of f n) \<subseteq> set res \<longrightarrow> n \<in> set res"
    by (simp_all add: loop_inv_def)
  let ?W = "set (node_ids f) - set res"
  from ne sub have "?W \<noteq> {}" by blast
  moreover have "wf ((set (operand_edges f))\<inverse>)"
    using ac by (simp add: finite_acyclic_wf_converse)
  ultimately obtain z where z: "z \<in> ?W"
    and min: "\<And>y. (y, z) \<in> (set (operand_edges f))\<inverse> \<Longrightarrow> y \<notin> ?W"
    by (metis wfE_min ex_in_conv)
  from z compl obtain u where u: "u \<in> set (users_of f z)" "u \<notin> set res"
    by blast
  from wf u(1) have "u \<in> set (node_ids f)" by (rule users_of_in_nodes(1))
  with u(2) have "u \<in> ?W" by simp
  moreover from wf u(1) have "(z, u) \<in> set (operand_edges f)" by (rule users_edge)
  ultimately show False using min by blast
qed

lemma users_before_rev_operands_first:
  assumes wf: "well_formed f" and dist: "distinct res" and all: "set res = set (node_ids f)"
    and ub: "users_before f res"
  shows "operands_first f (rev res)"
  unfolding operands_first_def
proof (intro allI impI ballI)
  fix j o'
  assume j: "j < length (rev res)" and o': "o' \<in> set (operands_of f (rev res ! j))"
  let ?n = "rev res ! j"
  let ?m = "length res - Suc j"
  from j have m: "?m < length res" and n: "?n = res ! ?m" by (simp_all add: rev_nth)
  then have nV: "?n \<in> set (node_ids f)" using all by (metis nth_mem)
  from wf nV o' have oV: "o' \<in> set (node_ids f)" and nu: "?n \<in> set (users_of f o')"
    by (rule operands_of_in_nodes)+
  from oV all have "o' \<in> set res" by simp
  then obtain k where k: "k < length res" "res ! k = o'"
    by (metis in_set_conv_nth)
  from ub k have "set (users_of f o') \<subseteq> set (take k res)"
    by (auto simp: users_before_def)
  with nu have "?n \<in> set (take k res)" by blast
  then obtain m' where "m' < length (take k res)" "take k res ! m' = ?n"
    by (metis in_set_conv_nth)
  with k(1) have m': "m' < k" "res ! m' = ?n" by simp_all
  from m' k(1) have "m' < length res" by simp
  with dist m n m'(2) have "m' = ?m"
    by (simp add: nth_eq_iff_index_eq)
  with m' have lt: "?m < k" by simp
  let ?i = "length res - Suc k"
  from j have j': "j < length res" by simp
  from k(1) lt j' have "?i < j" by arith
  moreover from k have "rev res ! ?i = o'" by (simp add: rev_nth)
  ultimately show "\<exists>i<j. rev res ! i = o'" by blast
qed


subsection \<open>The contract of the topological sort\<close>

text \<open>
  C1. For every FunctionBase that satisfies the DAG invariant (with unique identifiers,
  operands and return value among its nodes), \<open>TopoSort\<close> returns an order that holds
  every node of the FunctionBase exactly once, and every operand of a node is at a
  strictly smaller index than the node.
\<close>

theorem TopoSort_topological:
  assumes "DAG_invariant f"
  shows "\<exists>order. TopoSort f = Some order \<and> distinct order \<and>
           set order = set (node_ids f) \<and> length order = length (node_ids f) \<and>
           operands_first f order"
proof -
  from assms have wf: "well_formed f" by (simp add: DAG_invariant_def)
  from topo_loop_terminates [OF wf loop_inv_init [OF wf]]
  obtain res where res: "topo_loop f (seed_ready f) [] = Some res" and inv: "loop_inv f [] res"
    by blast
  from inv have dist: "distinct res" and ub: "users_before f res"
    by (simp_all add: loop_inv_def)
  have all: "set res = set (node_ids f)"
    using assms inv by (rule all_nodes_ordered)
  have "operands_first f (rev res)"
    using wf dist all ub by (rule users_before_rev_operands_first)
  moreover have "length res = length (node_ids f)"
    using dist all wf by (metis distinct_card well_formed_def)
  ultimately show ?thesis
    using res dist all by (simp add: TopoSort_def ReverseTopoSort_def)
qed

theorem TopoSort_topological_witness:
  "\<exists>order. TopoSort ladder = Some order \<and> distinct order \<and>
     set order = set (node_ids ladder) \<and> length order = length (node_ids ladder) \<and>
     operands_first ladder order"
proof -
  have "DAG_invariant ladder" by code_simp
  then show ?thesis by (rule TopoSort_topological)
qed

lemma ReverseTopoSort_is_reverse:
  "map_option rev (TopoSort f) = ReverseTopoSort f"
  by (simp add: TopoSort_def option.map_comp comp_def option.map_ident)

text \<open>The model gives the order that each test of node_iterator_test.cc expects.\<close>

lemma TopoSort_node_iterator_tests:
  "names_in_order literal_neg (the (TopoSort literal_neg)) = [''literal'', ''neg'']"
  "names_in_order diamond (the (TopoSort diamond)) = [''x'', ''neg.1'', ''neg.2'', ''add.3'']"
  "names_in_order post_order_not_pre_order (the (TopoSort post_order_not_pre_order))
     = [''a'', ''b'', ''c'']"
  "names_in_order two_of_same_operand_links (the (TopoSort two_of_same_operand_links))
     = [''a'', ''b'', ''c'', ''d'']"
  "names_in_order useless_params (the (TopoSort useless_params)) = [''a'', ''b'', ''r'']"
  "names_in_order extended_diamond (the (TopoSort extended_diamond))
     = [''a'', ''t'', ''c'', ''b'', ''e'', ''d'']"
  "map_option rev (TopoSort extended_diamond) = ReverseTopoSort extended_diamond"
  by code_simp+

subsection \<open>Ties\<close>

text \<open>
  C6 (as amended). For the ladder function
  \<open>fn(a) { t = neg(a); b = neg(a); c = neg(b); ret d = add(c, t) }\<close> the order produced is
  exactly \<open>[a, b, c, t, d]\<close>, which differs from the reverse-post-order result
  \<open>[a, t, b, c, d]\<close>.
\<close>

theorem TopoSort_ladder:
  "TopoSort ladder = Some [0, 2, 3, 1, 4] \<and>
   names_in_order ladder [0, 2, 3, 1, 4] = [''a'', ''b'', ''c'', ''t'', ''d''] \<and>
   names_in_order ladder [0, 2, 3, 1, 4] \<noteq> [''a'', ''t'', ''b'', ''c'', ''d'']"
  by code_simp

text \<open>
  The claim as stated fails: in the order produced for the ladder, \<open>b\<close> comes before \<open>t\<close>,
  although both are ready once \<open>a\<close> is emitted and \<open>t\<close> was inserted first. The order that
  follows insertion order among ready nodes is the other one, \<open>[a, t, b, c, d]\<close>.
\<close>

theorem TopoSort_ladder_ties_counterexample:
  "TopoSort ladder = Some [0, 2, 3, 1, 4] \<and>
   \<not> ties_in_insertion_order ladder [0, 2, 3, 1, 4] \<and>
   ready_at ladder [0, 2, 3, 1, 4] 1 1 \<and> ready_at ladder [0, 2, 3, 1, 4] 1 2 \<and>
   insertion_index ladder 1 < insertion_index ladder 2 \<and>
   ties_in_insertion_order ladder [0, 1, 2, 3, 4]"
  by code_simp

section \<open>Properties of the scheduling wrapper pass\<close>

text \<open>
  C5. The constructor's default for \<open>reschedule_new_nodes\<close> is false. For every run of the
  wrapper in which the wrapped pass succeeds and adds nodes to the package: if
  \<open>reschedule_new_nodes\<close> is false, the wrapper returns an invariant-violation error that
  names one of the added nodes, and so no scheduling unit; if it is true, the wrapper
  returns the changed flag of the pass and a unit whose schedule is empty.
\<close>

theorem SchedulingWrapperPass_added_nodes:
  assumes "wrapped_pass self (su_package unit) = Inr (changed, package')"
    and "added_nodes (su_package unit) package' \<noteq> []"
  shows "reschedule_new_nodes (new_SchedulingWrapperPass wrapped None) = False \<and>
         (if reschedule_new_nodes self
          then SchedulingWrapperPass_RunInternal self unit
                 = Inr (changed, \<lparr>su_package = package', su_schedule = []\<rparr>)
          else \<exists>n. n \<in> set (added_nodes (su_package unit) package') \<and>
                 SchedulingWrapperPass_RunInternal self unit = Inl (added_node_error n))"
proof -
  from assms(2) obtain n ns where "added_nodes (su_package unit) package' = n # ns"
    by (cases "added_nodes (su_package unit) package'") auto
  with assms(1) show ?thesis
    by (auto simp: SchedulingWrapperPass_RunInternal_def new_SchedulingWrapperPass_def)
qed

theorem SchedulingWrapperPass_added_nodes_witness:
  "SchedulingWrapperPass_RunInternal (pipeline_wrapper adding_pass) ladder_unit
     = Inl (added_node_error 5) \<and>
   SchedulingWrapperPass_RunInternal (new_SchedulingWrapperPass adding_pass (Some True)) ladder_unit
     = Inr (True, \<lparr>su_package = snd (projr (adding_pass ladder_package)), su_schedule = []\<rparr>)"
proof -
  let ?p' = "snd (projr (adding_pass ladder_package))"
  have run: "adding_pass (su_package ladder_unit) = Inr (True, ?p')"
    by (simp add: adding_pass_def ladder_unit_def ladder_package_def)
  have added: "added_nodes (su_package ladder_unit) ?p' = [5]"
    by code_simp
  then have ne: "added_nodes (su_package ladder_unit) ?p' \<noteq> []" by simp
  have w1: "wrapped_pass (pipeline_wrapper adding_pass) (su_package ladder_unit) = Inr (True, ?p')"
    using run by (simp add: pipeline_wrapper_def new_SchedulingWrapperPass_def)
  have w2: "wrapped_pass (new_SchedulingWrapperPass adding_pass (Some True)) (su_package ladder_unit)
              = Inr (True, ?p')"
    using run by (simp add: new_SchedulingWrapperPass_def)
  from SchedulingWrapperPass_added_nodes [OF w1 ne, of adding_pass]
  have "SchedulingWrapperPass_RunInternal (pipeline_wrapper adding_pass) ladder_unit
          = Inl (added_node_error 5)"
    by (simp add: added pipeline_wrapper_def new_SchedulingWrapperPass_def)
  moreover from SchedulingWrapperPass_added_nodes [OF w2 ne, of adding_pass]
  have "SchedulingWrapperPass_RunInternal (new_SchedulingWrapperPass adding_pass (Some True)) ladder_unit
          = Inr (True, \<lparr>su_package = ?p', su_schedule = []\<rparr>)"
    by (simp add: new_SchedulingWrapperPass_def)
  ultimately show ?thesis by (rule conjI)
qed

section \<open>Properties of the inlining pass\<close>

subsection \<open>Functions of a package\<close>




lemma get_function_next_id [simp]:
  "get_function (p\<lparr>pkg_next_id := k\<rparr>) h = get_function p h"
  by (simp add: get_function_def)


lemma signature_next_id [simp]: "signature (p\<lparr>pkg_next_id := k\<rparr>) = signature p"
  by (simp add: signature_def)

lemma next_id_map_function [simp]: "pkg_next_id (map_function name g p) = pkg_next_id p"
  by (simp add: map_function_def)









subsection \<open>evolves\<close>












lemma fentries_map_node:
  assumes "\<And>n. node_id (h n) = node_id n" and "\<And>n. node_op (h n) = node_op n"
  shows "fentries (map_node i h f) = fentries f"
  by (simp add: fentries_def map_node_def assms)


























subsection \<open>The invokes that remain after the pass\<close>




subsection \<open>Names of the inlined nodes\<close>

lemma name_scan_inv:
  assumes "name_scan node pairs (m, d) = (m', d')"
  shows "best m \<le> best m' \<and>
         (\<forall>(param, operand)\<in>set (candidates node pairs). Suc (length (GetName param)) \<le> best m') \<and>
         ((m', d') = (m, d) \<or>
          (\<exists>(param, operand)\<in>set (candidates node pairs).
              m' = Some param \<and>
              d' = GetName operand @ drop (length (GetName param)) (GetName node)))"
  using assms
proof (induction pairs arbitrary: m d)
  case Nil
  then show ?case by (simp add: candidates_def)
next
  case (Cons pr rest)
  obtain param operand where pr: "pr = (param, operand)" by (cases pr)
  let ?cand = "HasAssignedName operand \<and> StartsWith (GetName node) (GetName param)"
  let ?derived = "GetName operand @ drop (length (GetName param)) (GetName node)"
  show ?case
  proof (cases "?cand \<and> best m \<le> length (GetName param)")
    case True
    then have cond: "(case m of None \<Rightarrow> True | Some x \<Rightarrow> length (GetName x) < length (GetName param))"
      by (auto simp: best_def split: option.splits)
    with True Cons.prems pr
    have run: "name_scan node rest (Some param, ?derived) = (m', d')" by simp
    from Cons.IH [OF run]
    have b: "Suc (length (GetName param)) \<le> best m'"
      and all: "\<forall>(param', operand')\<in>set (candidates node rest). Suc (length (GetName param')) \<le> best m'"
      and which: "(m', d') = (Some param, ?derived) \<or>
          (\<exists>(param', operand')\<in>set (candidates node rest).
              m' = Some param' \<and>
              d' = GetName operand' @ drop (length (GetName param')) (GetName node))"
      by (simp_all add: best_def)
    have cs: "candidates node (pr # rest) = (param, operand) # candidates node rest"
      using True pr by (simp add: candidates_def)
    have "best m \<le> best m'" using True b by simp
    moreover have "\<forall>(param', operand')\<in>set (candidates node (pr # rest)).
        Suc (length (GetName param')) \<le> best m'"
      unfolding cs using b all by simp
    moreover have "\<exists>(param', operand')\<in>set (candidates node (pr # rest)).
              m' = Some param' \<and>
              d' = GetName operand' @ drop (length (GetName param')) (GetName node)"
      unfolding cs using which by auto
    ultimately show ?thesis by blast
  next
    case False
    then have cond: "\<not> (?cand \<and> (case m of None \<Rightarrow> True
                                    | Some x \<Rightarrow> length (GetName x) < length (GetName param)))"
      by (auto simp: best_def split: option.splits)
    with Cons.prems pr have run: "name_scan node rest (m, d) = (m', d')"
      by (auto split: if_splits)
    from Cons.IH [OF run]
    have b: "best m \<le> best m'"
      and all: "\<forall>(param', operand')\<in>set (candidates node rest). Suc (length (GetName param')) \<le> best m'"
      and which: "(m', d') = (m, d) \<or>
          (\<exists>(param', operand')\<in>set (candidates node rest).
              m' = Some param' \<and>
              d' = GetName operand' @ drop (length (GetName param')) (GetName node))"
      by simp_all
    have cs: "set (candidates node (pr # rest))
                = (if ?cand then {(param, operand)} else {}) \<union> set (candidates node rest)"
      using pr by (auto simp: candidates_def)
    have mine: "?cand \<Longrightarrow> Suc (length (GetName param)) \<le> best m'"
      using False b by simp
    have "\<forall>(param', operand')\<in>set (candidates node (pr # rest)).
        Suc (length (GetName param')) \<le> best m'"
      unfolding cs using mine all by auto
    moreover have "(m', d') = (m, d) \<or>
          (\<exists>(param', operand')\<in>set (candidates node (pr # rest)).
              m' = Some param' \<and>
              d' = GetName operand' @ drop (length (GetName param')) (GetName node))"
      unfolding cs using which by auto
    ultimately show ?thesis using b by blast
  qed
qed

lemma GetInlinedNodeName_None:
  "GetInlinedNodeName node pairs = None
     \<longleftrightarrow> \<not> HasAssignedName node \<or> candidates node pairs = []"
proof (cases "HasAssignedName node")
  case False
  then show ?thesis by (simp add: GetInlinedNodeName_def)
next
  case True
  obtain m' d' where scan: "name_scan node pairs (None, []) = (m', d')" by fastforce
  from name_scan_inv [OF scan]
  have all: "\<forall>(param, operand)\<in>set (candidates node pairs). Suc (length (GetName param)) \<le> best m'"
    and which: "(m', d') = (None, []) \<or>
          (\<exists>(param, operand)\<in>set (candidates node pairs).
              m' = Some param \<and>
              d' = GetName operand @ drop (length (GetName param)) (GetName node))"
    by simp_all
  have "m' = None \<longleftrightarrow> candidates node pairs = []"
  proof
    assume "m' = None"
    then have "best m' = 0" by (simp add: best_def)
    with all show "candidates node pairs = []"
      by (cases "candidates node pairs") auto
  next
    assume "candidates node pairs = []"
    with which show "m' = None" by simp
  qed
  with True scan show ?thesis by (cases m') (simp_all add: GetInlinedNodeName_def)
qed

lemma GetInlinedNodeName_Some:
  assumes "GetInlinedNodeName node pairs = Some name"
  shows "\<exists>(param, operand)\<in>set (candidates node pairs).
           name = GetName operand @ drop (length (GetName param)) (GetName node) \<and>
           (\<forall>(param', operand')\<in>set (candidates node pairs).
               length (GetName param') \<le> length (GetName param))"
proof -
  obtain m' d' where scan: "name_scan node pairs (None, []) = (m', d')" by fastforce
  from assms scan obtain x where m': "m' = Some x" and d': "d' = name"
    by (auto simp: GetInlinedNodeName_def split: if_splits option.splits)
  from name_scan_inv [OF scan] m'
  have all: "\<forall>(param, operand)\<in>set (candidates node pairs). Suc (length (GetName param)) \<le> best m'"
    and which: "\<exists>(param, operand)\<in>set (candidates node pairs).
              m' = Some param \<and>
              d' = GetName operand @ drop (length (GetName param)) (GetName node)"
    by simp_all
  from which obtain param operand where
    sel: "(param, operand) \<in> set (candidates node pairs)" "m' = Some param"
      "d' = GetName operand @ drop (length (GetName param)) (GetName node)"
    by auto
  have "\<forall>(param', operand')\<in>set (candidates node pairs).
          length (GetName param') \<le> length (GetName param)"
    using all sel(2) by (auto simp: best_def)
  with sel d' show ?thesis by blast
qed

text \<open>
  C3. The comment of \<open>GetInlinedNodeName\<close>: among the parameters whose name is a prefix of
  the name of the node the one with the longest name is chosen, so that \<open>foo_bar_42\<close> is
  taken to be derived from \<open>foo_bar\<close> when there are parameters \<open>foo\<close> and \<open>foo_bar\<close>. The loop
  tests the assigned name of the operand in the same condition as the prefix, so a
  parameter whose call-site argument has no assigned name does not take part in the
  choice. For the function with the parameters \<open>foo\<close> and \<open>foo_bar\<close> and the node
  \<open>foo_bar_42\<close>, called with the named argument \<open>a\<close> for \<open>foo\<close> and an unnamed literal for
  \<open>foo_bar\<close>: the parameter with the longest prefix is \<open>foo_bar\<close> and its argument has no
  assigned name, so by the comment and by the rule of the spec the clone keeps its name;
  \<open>GetInlinedNodeName\<close> returns \<open>a_bar_42\<close>, derived from the shorter \<open>foo\<close>, and the pass gives
  the clone that name. When the argument for \<open>foo_bar\<close> has the assigned name \<open>b\<close>, the code
  and the rule agree on \<open>b_42\<close>.
\<close>

theorem GetInlinedNodeName_unnamed_longest_prefix:
  "params_and_operands prefix_package ''k'' (unnamed_node 6 (Invoke ''h'') [4, 5]) prefix_callee
     = Some prefix_pairs \<and>
   longest_prefix_param foo_bar_42 prefix_pairs
     = Some (mk_node 1 Param [] ''foo_bar'', unnamed_node 5 (OtherOp ''literal'') []) \<and>
   spec_inlined_name foo_bar_42 prefix_pairs = None \<and>
   GetInlinedNodeName foo_bar_42 prefix_pairs = Some ''a_bar_42'' \<and>
   map_option (\<lambda>p. node_names p ''k'') (after_pass prefix_package)
     = Some [Some ''a'', None, Some ''a_bar_42'', None] \<and>
   spec_inlined_name foo_bar_42 prefix_pairs_named = Some ''b_42'' \<and>
   GetInlinedNodeName foo_bar_42 prefix_pairs_named = Some ''b_42''"
  by code_simp

text \<open>
  The return value at a call site with an assigned name: \<open>x_negated\<close>, inlined at the call
  site \<open>r\<close> with the argument \<open>foo\<close>, is not named \<open>foo_negated\<close>; its name is cleared and it
  takes the name of the call site.
\<close>

lemma InlineInvoke_named_call_site_example:
  "map_option (\<lambda>p. node_names p ''main'') (after_pass named_return_package)
     = Some [Some ''foo'', Some ''r'']"
  by code_simp

text \<open>The example of the comment in \<open>InlineInvoke\<close>: the clone of \<open>x_negated\<close> is \<open>foo_negated\<close>.\<close>

lemma InlineInvoke_comment_example:
  "map_option (\<lambda>p. node_names p ''main'') (after_pass negate_package)
     = Some [Some ''foo'', Some ''foo_negated'', None]"
  by code_simp

subsection \<open>Labels of the inlined covers and asserts\<close>

text \<open>
  C4. The label of an inlined cover becomes
  \<open>caller_name + "_" + inline_index + "_" + callee_name + "_" + original_label\<close>, with an
  index that counts the call sites inlined so far, when the cover is not the return value
  of the inlined function or the call site has no assigned name: two unnamed call sites
  of \<open>g\<close> in \<open>f\<close> give the labels \<open>f_0_g_l\<close> and \<open>f_1_g_l\<close>. When the cover is the return value
  and the call site has an assigned name, the loop of \<open>InlineInvoke\<close> leaves the step by its
  \<open>continue\<close> before the label is rewritten, and the clone keeps the label \<open>l\<close>: two named
  call sites give two covers with the same label.
\<close>

theorem InlineInvoke_return_value_cover_label:
  "GetPrefixedLabel ''f'' ''g'' ''l'' 0 = ''f_0_g_l'' \<and>
   GetPrefixedLabel ''f'' ''g'' ''l'' 1 = ''f_1_g_l'' \<and>
   map_option (\<lambda>p. labels p ''f'') (after_pass (cover_package None)) = Some [''f_0_g_l''] \<and>
   map_option (\<lambda>p. labels p ''f'') (after_pass (cover_package (Some ''r''))) = Some [''l''] \<and>
   map_option (\<lambda>p. labels p ''f'') (after_pass (cover_twice_package None None))
     = Some [''f_0_g_l'', ''f_1_g_l''] \<and>
   map_option (\<lambda>p. labels p ''f'') (after_pass (cover_twice_package (Some ''r1'') (Some ''r2'')))
     = Some [''l'', ''l'']"
  by code_simp

subsection \<open>Names after the pass\<close>

text \<open>
  With the stand-in for the name uniquer the names stay unique within each function in
  the examples; the covers inlined at two unnamed call sites are named \<open>c__1\<close> and
  \<open>c__2\<close>.
\<close>

lemma names_unique_examples:
  "map_option names_unique (after_pass negate_package) = Some True \<and>
   map_option names_unique (after_pass prefix_package) = Some True \<and>
   map_option names_unique (after_pass foreign_package) = Some True \<and>
   map_option names_unique (after_pass named_return_package) = Some True \<and>
   map_option names_unique (after_pass (cover_twice_package (Some ''r1'') (Some ''r2''))) = Some True \<and>
   map_option names_unique (after_pass (cover_twice_package None None)) = Some True \<and>
   map_option (\<lambda>p. node_names p ''f'') (after_pass (cover_twice_package None None))
     = Some [Some ''t'', Some ''y'', Some ''c__1'', Some ''c__2'']"
  by code_simp

end
